theory Spec2Isabelle
  imports Main "HOL-Library.AList" "HOL-Library.Char_ord" "HOL-Library.List_Lexorder"
begin

section \<open>Strings\<close>

text \<open>
  Python strings are modelled as \<open>string\<close> (lists of characters with codes below 256).
  \<open>isspace\<close> is Python's \<open>str.isspace\<close> on that range, which is also what the regular
  expression class \<open>\s\<close> matches and what \<open>str.strip()\<close> removes.
\<close>

definition isspace :: "char \<Rightarrow> bool" where
  "isspace c \<longleftrightarrow> c \<in> set [CHR 0x09, CHR 0x0A, CHR 0x0B, CHR 0x0C, CHR 0x0D,
     CHR 0x1C, CHR 0x1D, CHR 0x1E, CHR 0x1F, CHR 0x20, CHR 0x85, CHR 0xA0]"

definition strip :: "string \<Rightarrow> string" where
  "strip s = rev (dropWhile isspace (rev (dropWhile isspace s)))"

text \<open>\<open>sep.join(xs)\<close>\<close>

fun join :: "string \<Rightarrow> string list \<Rightarrow> string" where
  "join sep [] = []"
| "join sep [x] = x"
| "join sep (x # y # ys) = x @ sep @ join sep (y # ys)"

section \<open>Data model\<close>

record RuleElement =
  name :: string
  is_token :: bool
  cardinality :: string
  is_rule_ref :: bool

definition is_optional :: "RuleElement \<Rightarrow> bool" where
  "is_optional e \<longleftrightarrow> cardinality e \<in> set [''?'', ''*'']"

definition is_list :: "RuleElement \<Rightarrow> bool" where
  "is_list e \<longleftrightarrow> cardinality e \<in> set [''*'', ''+'']"

record Alternative =
  label :: "string option"
  elements :: "RuleElement list"

record GrammarRule =
  rule_name :: string
  alternatives :: "Alternative list"

section \<open>Splitting a rule body into alternatives\<close>

text \<open>
  The loop of \<open>GrammarParser._split_alternatives\<close>: the arguments after the remaining
  characters are the loop variables \<open>parts\<close>, \<open>current\<close> and \<open>depth\<close> (a Python int,
  which may become negative).
\<close>

fun split_loop :: "string \<Rightarrow> string list \<Rightarrow> string \<Rightarrow> int \<Rightarrow> string list \<times> string" where
  "split_loop [] parts current depth = (parts, current)"
| "split_loop (c # cs) parts current depth =
     (if c = CHR ''('' \<or> c = CHR ''['' then split_loop cs parts (current @ [c]) (depth + 1)
      else if c = CHR '')'' \<or> c = CHR '']'' then split_loop cs parts (current @ [c]) (depth - 1)
      else if c = CHR ''|'' \<and> depth = 0 then split_loop cs (parts @ [strip current]) [] depth
      else split_loop cs parts (current @ [c]) depth)"

definition split_alternatives :: "string \<Rightarrow> string list" where
  "split_alternatives rule_body =
     (case split_loop rule_body [] [] 0 of
        (parts, current) \<Rightarrow>
          (let parts' = (if current \<noteq> [] then parts @ [strip current] else parts)
           in if parts' \<noteq> [] then parts' else [rule_body]))"

subsection \<open>The splitting rule in the words of the specification\<close>

text \<open>
  The change of the nesting depth made by one character, the depth reached after a
  text, and the segments between the \<open>|\<close> characters met at depth zero.
\<close>

definition delta :: "char \<Rightarrow> int" where
  "delta c = (if c = CHR ''('' \<or> c = CHR ''['' then 1
              else if c = CHR '')'' \<or> c = CHR '']'' then - 1 else 0)"

definition nesting_depth :: "string \<Rightarrow> int" where
  "nesting_depth s = sum_list (map delta s)"

fun segments :: "int \<Rightarrow> string \<Rightarrow> string list" where
  "segments d [] = [[]]"
| "segments d (c # cs) =
     (if c = CHR ''|'' \<and> d = 0 then [] # segments d cs
      else (let ss = segments (d + delta c) cs in (c # hd ss) # tl ss))"

definition plain :: "string \<Rightarrow> bool" where
  "plain s \<longleftrightarrow> (\<forall>c \<in> set s. c \<notin> set ''()[]|'')"


section \<open>Regular expressions of the grammar parser\<close>

text \<open>The character classes \<open>[a-z_]\<close>, \<open>[a-z0-9_]\<close>, \<open>[A-Z_]\<close> and \<open>[A-Z0-9_]\<close>.\<close>

definition lower_start :: "char \<Rightarrow> bool" where
  "lower_start c \<longleftrightarrow> (CHR ''a'' \<le> c \<and> c \<le> CHR ''z'') \<or> c = CHR ''_''"

definition lower_char :: "char \<Rightarrow> bool" where
  "lower_char c \<longleftrightarrow> (CHR ''a'' \<le> c \<and> c \<le> CHR ''z'') \<or> (CHR ''0'' \<le> c \<and> c \<le> CHR ''9'') \<or> c = CHR ''_''"

definition upper_start :: "char \<Rightarrow> bool" where
  "upper_start c \<longleftrightarrow> (CHR ''A'' \<le> c \<and> c \<le> CHR ''Z'') \<or> c = CHR ''_''"

definition upper_char :: "char \<Rightarrow> bool" where
  "upper_char c \<longleftrightarrow> (CHR ''A'' \<le> c \<and> c \<le> CHR ''Z'') \<or> (CHR ''0'' \<le> c \<and> c \<le> CHR ''9'') \<or> c = CHR ''_''"

text \<open>
  \<open>#\s*([a-z_][a-z0-9_]*)\<close> matched at the start of a text: group 1 and the text after
  the match. Both quantifiers are greedy and nothing they give back can help the match, so
  the group is the longest run of identifier characters.
\<close>

definition label_match :: "string \<Rightarrow> (string \<times> string) option" where
  "label_match s =
     (case s of
        [] \<Rightarrow> None
      | c # cs \<Rightarrow>
          if c \<noteq> CHR ''#'' then None
          else (case dropWhile isspace cs of
                  [] \<Rightarrow> None
                | d # ds \<Rightarrow>
                    if lower_start d then Some (d # takeWhile lower_char ds, dropWhile lower_char ds)
                    else None))"

text \<open>\<open>re.search\<close> with that pattern: group 1 of the leftmost match.\<close>

fun label_search :: "string \<Rightarrow> string option" where
  "label_search [] = None"
| "label_search (c # cs) =
     (case label_match (c # cs) of Some (l, rest) \<Rightarrow> Some l | None \<Rightarrow> label_search cs)"

lemma length_dropWhile_le_string: "length (dropWhile P xs) \<le> length xs"
  by (induction xs) auto

lemma label_match_shorter: "label_match s = Some (l, rest) \<Longrightarrow> length rest < length s"
proof -
  note d = length_dropWhile_le_string
  assume "label_match s = Some (l, rest)"
  then obtain c cs d ds where s: "s = c # cs" and e: "dropWhile isspace cs = d # ds"
    and r: "rest = dropWhile lower_char ds"
    by (auto simp: label_match_def split: list.splits if_splits)
  have "length rest \<le> length ds" using r d by simp
  also have "\<dots> < length (dropWhile isspace cs)" using e by simp
  also have "\<dots> \<le> length cs" by (rule d)
  finally show ?thesis using s by simp
qed

text \<open>\<open>re.sub\<close> with that pattern and the empty replacement: every match is removed.\<close>

function label_sub :: "string \<Rightarrow> string" where
  "label_sub [] = []"
| "label_sub (c # cs) =
     (case label_match (c # cs) of
        Some (l, rest) \<Rightarrow> label_sub rest
      | None \<Rightarrow> c # label_sub cs)"
  by pat_completeness auto
termination
  by (relation "measure length") (auto dest: label_match_shorter)

text \<open>
  A quoted literal \<open>q[^q]+q\<close> at the start of a text, and the element pattern
  \<open>([a-z_][a-z0-9_]*|[A-Z_][A-Z0-9_]*|'[^']+'|"[^"]+")([?*+])?\<close>: group 1, group 2
  (empty when it did not take part) and the text after the match.
\<close>

definition quoted_match :: "char \<Rightarrow> string \<Rightarrow> (string \<times> string) option" where
  "quoted_match q s =
     (case s of
        [] \<Rightarrow> None
      | c # cs \<Rightarrow>
          if c \<noteq> q then None
          else (let inner = takeWhile (\<lambda>x. x \<noteq> q) cs; rest = dropWhile (\<lambda>x. x \<noteq> q) cs
                in if inner = [] then None
                   else (case rest of [] \<Rightarrow> None | r # after \<Rightarrow> Some (q # inner @ [q], after))))"

definition element_name_match :: "string \<Rightarrow> (string \<times> string) option" where
  "element_name_match s =
     (case s of
        [] \<Rightarrow> None
      | c # cs \<Rightarrow>
          if lower_start c then Some (c # takeWhile lower_char cs, dropWhile lower_char cs)
          else if upper_start c then Some (c # takeWhile upper_char cs, dropWhile upper_char cs)
          else (case quoted_match (CHR 0x27) s of
                  Some r \<Rightarrow> Some r
                | None \<Rightarrow> quoted_match (CHR 0x22) s))"

definition element_match :: "string \<Rightarrow> (string \<times> string \<times> string) option" where
  "element_match s =
     (case element_name_match s of
        None \<Rightarrow> None
      | Some (nm, rest) \<Rightarrow>
          (case rest of
             [] \<Rightarrow> Some (nm, [], [])
           | d # ds \<Rightarrow> if d \<in> set ''?*+'' then Some (nm, [d], ds) else Some (nm, [], rest)))"

lemma quoted_match_shorter: "quoted_match k t = Some (a, b) \<Longrightarrow> length b < length t"
  using length_dropWhile_le_string[of "\<lambda>x. x \<noteq> k" "tl t"]
  by (cases t) (auto simp: quoted_match_def Let_def split: if_splits list.splits)

lemma element_name_match_shorter:
  "element_name_match s = Some (nm, rest) \<Longrightarrow> length rest < length s"
proof (cases s)
  case Nil
  assume "element_name_match s = Some (nm, rest)"
  with Nil show ?thesis by (simp add: element_name_match_def)
next
  case (Cons c cs)
  assume m: "element_name_match s = Some (nm, rest)"
  consider "lower_start c" | "\<not> lower_start c" "upper_start c"
    | "\<not> lower_start c" "\<not> upper_start c" by blast
  then show ?thesis
  proof cases
    case 1
    with m Cons have "rest = dropWhile lower_char cs" by (simp add: element_name_match_def)
    then show ?thesis using length_dropWhile_le_string[of lower_char cs] Cons by simp
  next
    case 2
    with m Cons have "rest = dropWhile upper_char cs" by (simp add: element_name_match_def)
    then show ?thesis using length_dropWhile_le_string[of upper_char cs] Cons by simp
  next
    case 3
    with m Cons have "quoted_match (CHR 0x27) s = Some (nm, rest)
                      \<or> quoted_match (CHR 0x22) s = Some (nm, rest)"
      by (auto simp: element_name_match_def split: option.splits)
    then show ?thesis using quoted_match_shorter by blast
  qed
qed

lemma element_match_shorter:
  "element_match s = Some (nm, suf, rest) \<Longrightarrow> length rest < length s"
proof -
  assume m: "element_match s = Some (nm, suf, rest)"
  then obtain r where g: "element_name_match s = Some (nm, r)" and "length rest \<le> length r"
    by (auto simp: element_match_def split: option.splits list.splits if_splits)
  with element_name_match_shorter[OF g] show ?thesis by simp
qed

text \<open>\<open>finditer\<close> with the element pattern: groups 1 and 2 of the successive matches.\<close>

function element_finditer :: "string \<Rightarrow> (string \<times> string) list" where
  "element_finditer [] = []"
| "element_finditer (c # cs) =
     (case element_match (c # cs) of
        Some (nm, suf, rest) \<Rightarrow> (nm, suf) # element_finditer rest
      | None \<Rightarrow> element_finditer cs)"
  by pat_completeness auto
termination
  by (relation "measure length") (auto dest: element_match_shorter)

text \<open>
  The rule pattern \<open>^([a-z_][a-z0-9_]*)\s*:\s*(.+?)\s*;\<close> with \<open>MULTILINE\<close> and
  \<open>DOTALL\<close>. \<open>ends_rule\<close> is \<open>\s*;\<close> at the start of a text; \<open>lazy_body\<close> extends the
  lazy group by the fewest characters after which \<open>\s*;\<close> matches. In \<open>rule_match\<close>
  (the pattern at a line start) the white space after the colon is taken greedily; when
  the lazy group then finds no end, the only shorter choice that can match gives the
  group the last white-space character, right before a semicolon.
\<close>

definition ends_rule :: "string \<Rightarrow> string option" where
  "ends_rule s =
     (case dropWhile isspace s of
        [] \<Rightarrow> None
      | c # cs \<Rightarrow> if c = CHR '';'' then Some cs else None)"

fun lazy_body :: "string \<Rightarrow> (string \<times> string) option" where
  "lazy_body [] = None"
| "lazy_body (c # cs) =
     (case ends_rule (c # cs) of
        Some after \<Rightarrow> Some ([], after)
      | None \<Rightarrow> (case lazy_body cs of
                   Some (b, after) \<Rightarrow> Some (c # b, after)
                 | None \<Rightarrow> None))"

definition rule_match :: "string \<Rightarrow> (string \<times> string \<times> string) option" where
  "rule_match s =
     (case s of
        [] \<Rightarrow> None
      | c # cs \<Rightarrow>
          if \<not> lower_start c then None
          else (case dropWhile isspace (dropWhile lower_char cs) of
                  [] \<Rightarrow> None
                | k # r2 \<Rightarrow>
                    if k \<noteq> CHR '':'' then None
                    else (case dropWhile isspace r2 of
                            [] \<Rightarrow> None
                          | b # r4 \<Rightarrow>
                              (case lazy_body r4 of
                                 Some (bs, after) \<Rightarrow> Some (c # takeWhile lower_char cs, b # bs, after)
                               | None \<Rightarrow>
                                   if b = CHR '';'' \<and> takeWhile isspace r2 \<noteq> []
                                   then Some (c # takeWhile lower_char cs, [last (takeWhile isspace r2)], r4)
                                   else None))))"

lemma lazy_body_shorter: "lazy_body s = Some (b, after) \<Longrightarrow> length after < length s"
proof (induction s arbitrary: b)
  case Nil
  then show ?case by simp
next
  case (Cons c cs)
  note d = length_dropWhile_le_string
  show ?case
  proof (cases "ends_rule (c # cs)")
    case None
    with Cons.prems obtain b' where "lazy_body cs = Some (b', after)"
      by (auto split: option.splits)
    from Cons.IH[OF this] show ?thesis by simp
  next
    case (Some a)
    with Cons.prems have "a = after" by simp
    with Some have "dropWhile isspace (c # cs) = CHR '';'' # after"
      by (auto simp: ends_rule_def split: list.splits if_splits)
    then have "length after < length (dropWhile isspace (c # cs))" by simp
    also have "\<dots> \<le> length (c # cs)" by (rule d)
    finally show ?thesis .
  qed
qed

lemma rule_match_shorter:
  "rule_match s = Some (nm, body, rest) \<Longrightarrow> length rest < length s"
proof -
  note d = length_dropWhile_le_string
  assume m: "rule_match s = Some (nm, body, rest)"
  then obtain c cs k r2 b r4 where s: "s = c # cs"
    and 1: "dropWhile isspace (dropWhile lower_char cs) = k # r2"
    and 2: "dropWhile isspace r2 = b # r4"
    and 3: "length rest \<le> length r4"
    by (auto simp: rule_match_def split: list.splits if_splits option.splits
             dest: lazy_body_shorter)
  have "length r4 < length (dropWhile isspace r2)" using 2 by simp
  also have "\<dots> \<le> length r2" by (rule d)
  also have "\<dots> < length (dropWhile isspace (dropWhile lower_char cs))" using 1 by simp
  also have "\<dots> \<le> length (dropWhile lower_char cs)" by (rule d)
  also have "\<dots> \<le> length cs" by (rule d)
  finally show ?thesis using 3 s by simp
qed

text \<open>
  \<open>finditer\<close> with the rule pattern: groups 1 and 2 of the successive matches. The flag
  says whether the position is the start of a line (the start of the text, or right
  after a newline), where \<open>^\<close> matches; a match ends in a semicolon, so the search
  goes on in the middle of a line.
\<close>

function rule_finditer :: "bool \<Rightarrow> string \<Rightarrow> (string \<times> string) list" where
  "rule_finditer bol [] = []"
| "rule_finditer bol (c # cs) =
     (case (if bol then rule_match (c # cs) else None) of
        Some (nm, body, rest) \<Rightarrow> (nm, body) # rule_finditer False rest
      | None \<Rightarrow> rule_finditer (c = CHR 0x0A) cs)"
  by pat_completeness auto
termination
  by (relation "measure (\<lambda>(bol, s). length s)") (auto dest: rule_match_shorter split: if_splits)

section \<open>The grammar parser\<close>

text \<open>
  \<open>str.isupper\<close> of one character. It is applied to the first character of an element
  name, which the element pattern takes from \<open>[a-zA-Z_]\<close>.
\<close>

definition isupper :: "char \<Rightarrow> bool" where
  "isupper c \<longleftrightarrow> (CHR ''A'' \<le> c \<and> c \<le> CHR ''Z'')
     \<or> (CHR 0xC0 \<le> c \<and> c \<le> CHR 0xDE \<and> c \<noteq> CHR 0xD7)"

definition starts_with_quote :: "string \<Rightarrow> bool" where
  "starts_with_quote s = (case s of [] \<Rightarrow> False | c # cs \<Rightarrow> c = CHR 0x27 \<or> c = CHR 0x22)"

text \<open>
  One match of the element pattern made into a \<open>RuleElement\<close>. Group 1 of a match is
  never empty, so \<open>element_name[0]\<close> is its head.
\<close>

definition make_element :: "string \<times> string \<Rightarrow> RuleElement" where
  "make_element m =
     (case m of (element_name, suf) \<Rightarrow>
        \<lparr>name = element_name, is_token = isupper (hd element_name),
         cardinality = suf, is_rule_ref = (\<not> isupper (hd element_name))\<rparr>)"

definition parse_alternative :: "string \<Rightarrow> RuleElement list" where
  "parse_alternative alt_text =
     map make_element (filter (\<lambda>m. \<not> starts_with_quote (fst m)) (element_finditer alt_text))"

text \<open>The body of the loop of \<open>_parse_rule\<close>, for one alternative text, and the loop.\<close>

definition parse_rule_alt :: "string \<Rightarrow> Alternative" where
  "parse_rule_alt alt_text =
     (case label_search alt_text of
        Some l \<Rightarrow> \<lparr>label = Some l, elements = parse_alternative (label_sub alt_text)\<rparr>
      | None \<Rightarrow> \<lparr>label = None, elements = parse_alternative alt_text\<rparr>)"

definition parse_rule :: "string \<Rightarrow> string \<Rightarrow> GrammarRule" where
  "parse_rule rname rule_body =
     \<lparr>rule_name = rname, alternatives = map parse_rule_alt (split_alternatives rule_body)\<rparr>"

definition should_skip_rule :: "string \<Rightarrow> bool" where
  "should_skip_rule rname \<longleftrightarrow>
     rname \<in> set [''sql_script'', ''unit_statement'', ''sql_plus_command'',
                  ''sql_plus_command_no_semicolon'']"

text \<open>
  \<open>GrammarParser.parse\<close> on the text of the grammar file. The dictionary \<open>self.rules\<close> is a
  list of items in insertion order; an assignment to a key already there replaces its
  value in place.
\<close>

fun parse_loop :: "(string \<times> string) list \<Rightarrow> (string \<times> GrammarRule) list
                   \<Rightarrow> (string \<times> GrammarRule) list" where
  "parse_loop [] rules = rules"
| "parse_loop ((rname, rule_body) # ms) rules =
     (if should_skip_rule rname then parse_loop ms rules
      else parse_loop ms (AList.update rname (parse_rule rname rule_body) rules))"

definition parse :: "string \<Rightarrow> (string \<times> GrammarRule) list" where
  "parse content = parse_loop (rule_finditer True content) []"


section \<open>Name transformations\<close>

text \<open>
  \<open>str.split(sep)\<close> for a separator of one character, and the case mappings of
  \<open>str.capitalize\<close> and \<open>str.upper\<close> on ASCII letters: the names they are applied to are
  matched by \<open>[a-z_][a-z0-9_]*\<close>.
\<close>

fun split_on :: "char \<Rightarrow> string \<Rightarrow> string list" where
  "split_on sep [] = [[]]"
| "split_on sep (c # cs) =
     (if c = sep then [] # split_on sep cs
      else (let ws = split_on sep cs in (c # hd ws) # tl ws))"

definition to_upper :: "char \<Rightarrow> char" where
  "to_upper c = (if CHR ''a'' \<le> c \<and> c \<le> CHR ''z'' then char_of (of_char c - (32::nat)) else c)"

definition to_lower :: "char \<Rightarrow> char" where
  "to_lower c = (if CHR ''A'' \<le> c \<and> c \<le> CHR ''Z'' then char_of (of_char c + (32::nat)) else c)"

definition capitalize :: "string \<Rightarrow> string" where
  "capitalize w = (case w of [] \<Rightarrow> [] | c # cs \<Rightarrow> to_upper c # map to_lower cs)"

definition rule_to_class_name :: "string \<Rightarrow> string" where
  "rule_to_class_name rname = concat (map capitalize (split_on (CHR ''_'') rname))"

definition java_class_name :: "GrammarRule \<Rightarrow> string" where
  "java_class_name rule = concat (map capitalize (split_on (CHR ''_'') (rule_name rule)))"

definition to_camel_case :: "string \<Rightarrow> string" where
  "to_camel_case snake_str =
     (let components = split_on (CHR ''_'') snake_str
      in hd components @ concat (map capitalize (tl components)))"

section \<open>The node class generator\<close>

definition get_field_type :: "RuleElement \<Rightarrow> string" where
  "get_field_type elem =
     (let base_type = rule_to_class_name (name elem)
      in if is_list elem then ''List<'' @ base_type @ ''>''
         else if is_optional elem then base_type
         else base_type)"

text \<open>
  The loops of \<open>_generate_fields\<close>, \<open>_generate_constructor\<close> and \<open>_generate_getters\<close>, with
  their lists and the set \<open>seen_names\<close> as arguments (the list \<open>fields\<close> is \<open>field_lines\<close> here).
\<close>

fun generate_fields_loop :: "RuleElement list \<Rightarrow> string list \<Rightarrow> string set \<Rightarrow> string list" where
  "generate_fields_loop [] field_lines seen_names = field_lines"
| "generate_fields_loop (elem # es) field_lines seen_names =
     (if \<not> is_rule_ref elem then generate_fields_loop es field_lines seen_names
      else (let field_name = to_camel_case (name elem)
            in if field_name \<in> seen_names then generate_fields_loop es field_lines seen_names
               else generate_fields_loop es
                      (field_lines @ [''    private final '' @ get_field_type elem @ '' '' @ field_name @ '';''])
                      (insert field_name seen_names)))"

definition generate_fields :: "Alternative \<Rightarrow> string" where
  "generate_fields alt =
     (let field_lines = generate_fields_loop (elements alt) [] {}
      in if field_lines \<noteq> [] then join [CHR 0x0A] field_lines else ''    // No child nodes'')"

fun generate_constructor_loop ::
  "RuleElement list \<Rightarrow> string list \<Rightarrow> string list \<Rightarrow> string set \<Rightarrow> string list \<times> string list" where
  "generate_constructor_loop [] params assignments seen_names = (params, assignments)"
| "generate_constructor_loop (elem # es) params assignments seen_names =
     (if \<not> is_rule_ref elem then generate_constructor_loop es params assignments seen_names
      else (let field_name = to_camel_case (name elem)
            in if field_name \<in> seen_names
               then generate_constructor_loop es params assignments seen_names
               else generate_constructor_loop es
                      (params @ [get_field_type elem @ '' '' @ field_name])
                      (assignments @ [''        this.'' @ field_name @ '' = '' @ field_name @ '';''])
                      (insert field_name seen_names)))"

definition generate_constructor :: "string \<Rightarrow> Alternative \<Rightarrow> string" where
  "generate_constructor class_name alt =
     (case generate_constructor_loop (elements alt) [] [] {} of
        (params, assignments) \<Rightarrow>
          if params = []
          then ''    public '' @ class_name @ ''() {'' @ [CHR 0x0A]
               @ ''        // No child nodes'' @ [CHR 0x0A]
               @ ''    }''
          else ''    public '' @ class_name @ ''('' @ join '', '' params @ '') {'' @ [CHR 0x0A]
               @ join [CHR 0x0A] assignments @ [CHR 0x0A]
               @ ''    }'')"

datatype py_error = IndexError

text \<open>\<open>field_name[0]\<close> raises \<open>IndexError\<close> on the empty field name (of the name \<open>_\<close>).\<close>

fun generate_getters_loop ::
  "RuleElement list \<Rightarrow> string list \<Rightarrow> string set \<Rightarrow> py_error + string list" where
  "generate_getters_loop [] getters seen_names = Inr getters"
| "generate_getters_loop (elem # es) getters seen_names =
     (if \<not> is_rule_ref elem then generate_getters_loop es getters seen_names
      else (let field_name = to_camel_case (name elem)
            in if field_name \<in> seen_names then generate_getters_loop es getters seen_names
               else (case field_name of
                       [] \<Rightarrow> Inl IndexError
                     | c # cs \<Rightarrow>
                         generate_getters_loop es
                           (getters @ [''    public '' @ get_field_type elem @ '' ''
                                       @ (''get'' @ [to_upper c] @ cs) @ ''() {'' @ [CHR 0x0A]
                                       @ ''        return '' @ field_name @ '';'' @ [CHR 0x0A]
                                       @ ''    }''])
                           (insert field_name seen_names))))"

definition generate_getters :: "Alternative \<Rightarrow> py_error + string" where
  "generate_getters alt =
     (case generate_getters_loop (elements alt) [] {} of
        Inl e \<Rightarrow> Inl e
      | Inr getters \<Rightarrow> Inr (if getters \<noteq> [] then join [CHR 0x0A, CHR 0x0A] getters else []))"

text \<open>
  \<open>rule.alternatives[0] if rule.alternatives else Alternative(None, [])\<close>, and the test
  \<open>any(alt.label for alt in rule.alternatives)\<close>, where \<open>None\<close> and the empty string count
  as false.
\<close>

definition first_alternative :: "GrammarRule \<Rightarrow> Alternative" where
  "first_alternative rule =
     (case alternatives rule of [] \<Rightarrow> \<lparr>label = None, elements = []\<rparr> | alt # rest \<Rightarrow> alt)"

definition has_labeled_alternative :: "GrammarRule \<Rightarrow> bool" where
  "has_labeled_alternative rule =
     list_ex (\<lambda>alt. case label alt of None \<Rightarrow> False | Some l \<Rightarrow> l \<noteq> []) (alternatives rule)"

text \<open>\<open>s.rsplit('.', 1)[0]\<close>: the text before the last dot, or all of it without a dot.\<close>

definition rsplit_dot_head :: "string \<Rightarrow> string" where
  "rsplit_dot_head s =
     (let ps = split_on (CHR ''.'') s in if tl ps = [] then s else join ''.'' (butlast ps))"

text \<open>
  The class text that \<open>_generate_class\<close> returns for a rule without a labeled
  alternative. The f-string calls the three generators in order; the only one that can
  raise is the last.
\<close>

definition class_text :: "string \<Rightarrow> GrammarRule \<Rightarrow> string \<Rightarrow> py_error + string" where
  "class_text base_package rule subdir =
     (let class_name = java_class_name rule;
          package_name = base_package @ ''.'' @ subdir;
          alt = first_alternative rule
      in case generate_getters alt of
           Inl e \<Rightarrow> Inl e
         | Inr getters \<Rightarrow>
             Inr (join [CHR 0x0A]
               [''package '' @ package_name @ '';'',
                [],
                ''import '' @ base_package @ ''.SemanticNode;'',
                ''import '' @ rsplit_dot_head base_package @ ''.context.TransformationContext;'',
                ''import '' @ rsplit_dot_head base_package @ ''.context.TransformationException;'',
                [],
                ''import java.util.List;'',
                [],
                ''/**'',
                '' * Semantic node for grammar rule: '' @ rule_name rule,
                '' *'',
                '' * Generated by codegen/generate.py - DO NOT EDIT MANUALLY'',
                '' * Delete this file and regenerate if grammar changes.'',
                '' */'',
                ''public class '' @ class_name @ '' implements SemanticNode {'',
                [],
                generate_fields alt,
                [],
                generate_constructor class_name alt,
                [],
                getters,
                [],
                ''    @Override'',
                ''    public String toPostgres(TransformationContext ctx) {'',
                ''        // TODO: Implement transformation logic for '' @ rule_name rule,
                ''        throw new TransformationException(\"'' @ rule_name rule
                   @ '' transformation not yet implemented\");'',
                ''    }'',
                ''}'',
                []]))"

text \<open>
  \<open>_generate_class\<close>. For a rule with a labeled alternative it calls
  \<open>_generate_interface_with_implementations(rule, package_name)\<close>, which calls
  \<open>_generate_class(rule, package_name.split('.')[-1])\<close> again; that call is written in
  place here. The result is \<open>None\<close> when the call does not return.
\<close>

partial_function (option) generate_class ::
  "string \<Rightarrow> GrammarRule \<Rightarrow> string \<Rightarrow> (py_error + string) option" where
  "generate_class base_package rule subdir =
     (if has_labeled_alternative rule
      then generate_class base_package rule (last (split_on (CHR ''.'') (base_package @ ''.'' @ subdir)))
      else Some (class_text base_package rule subdir))"

definition generate_interface_with_implementations ::
  "string \<Rightarrow> GrammarRule \<Rightarrow> string \<Rightarrow> (py_error + string) option" where
  "generate_interface_with_implementations base_package rule package_name =
     generate_class base_package rule (last (split_on (CHR ''.'') package_name))"

section \<open>The tree builder generator\<close>

text \<open>
  The loop of \<open>_generate_visit_body\<close> with its lists \<open>lines\<close> and \<open>constructor_args\<close> and
  the set \<open>seen_names\<close>, and the lines and the constructor argument it adds for one
  element.
\<close>

definition visit_element_lines :: "GrammarRule \<Rightarrow> RuleElement \<Rightarrow> string list \<times> string" where
  "visit_element_lines rule elem =
     (let field_name = to_camel_case (name elem);
          class_name = rule_to_class_name (name elem);
          ctx_method = ''ctx.'' @ name elem @ ''()''
      in if is_list elem then
           ([''        List<'' @ class_name @ ''> '' @ field_name @ ''List = new ArrayList<>();'',
             ''        if ('' @ ctx_method @ '' != null) {'',
             ''            for (PlSqlParser.'' @ class_name @ ''Context item : '' @ ctx_method @ '') {'',
             ''                '' @ field_name @ ''List.add(('' @ class_name @ '') visit(item));'',
             ''            }'',
             ''        }''],
            field_name @ ''List'')
         else if is_optional elem then
           ([''        '' @ class_name @ '' '' @ field_name @ '' = null;'',
             ''        if ('' @ ctx_method @ '' != null) {'',
             ''            '' @ field_name @ '' = ('' @ class_name @ '') visit('' @ ctx_method @ '');'',
             ''        }''],
            field_name)
         else
           ([''        '' @ class_name @ '' '' @ field_name @ '';'',
             ''        if ('' @ ctx_method @ '' == null) {'',
             ''            throw new TransformationException(\"'' @ rule_name rule @ '' missing ''
                @ name elem @ ''\");'',
             ''        }'',
             ''        '' @ field_name @ '' = ('' @ class_name @ '') visit('' @ ctx_method @ '');''],
            field_name))"

fun generate_visit_body_loop ::
  "GrammarRule \<Rightarrow> RuleElement list \<Rightarrow> string list \<Rightarrow> string list \<Rightarrow> string set
   \<Rightarrow> string list \<times> string list" where
  "generate_visit_body_loop rule [] lines constructor_args seen_names = (lines, constructor_args)"
| "generate_visit_body_loop rule (elem # es) lines constructor_args seen_names =
     (if \<not> is_rule_ref elem then generate_visit_body_loop rule es lines constructor_args seen_names
      else (let field_name = to_camel_case (name elem)
            in if field_name \<in> seen_names
               then generate_visit_body_loop rule es lines constructor_args seen_names
               else generate_visit_body_loop rule es
                      (lines @ fst (visit_element_lines rule elem))
                      (constructor_args @ [snd (visit_element_lines rule elem)])
                      (insert field_name seen_names)))"

definition generate_visit_body :: "GrammarRule \<Rightarrow> Alternative \<Rightarrow> string" where
  "generate_visit_body rule alt =
     (case generate_visit_body_loop rule (elements alt) [] [] {} of
        (lines, constructor_args) \<Rightarrow>
          join [CHR 0x0A]
            (lines @
             [if constructor_args \<noteq> []
              then ''        return new '' @ java_class_name rule @ ''(''
                   @ join '', '' constructor_args @ '');''
              else ''        return new '' @ java_class_name rule @ ''();'']))"



section \<open>The projection in the words of the specification\<close>

text \<open>
  The elements that become fields: the rule references, of which only the first with
  each field name is kept.
\<close>

fun keep_first :: "('a \<Rightarrow> 'b) \<Rightarrow> 'a list \<Rightarrow> 'a list" where
  "keep_first f [] = []"
| "keep_first f (x # xs) = x # keep_first f (filter (\<lambda>y. f y \<noteq> f x) xs)"

definition field_name_of :: "RuleElement \<Rightarrow> string" where
  "field_name_of elem = to_camel_case (name elem)"

definition field_elements :: "Alternative \<Rightarrow> RuleElement list" where
  "field_elements alt = keep_first field_name_of (filter is_rule_ref (elements alt))"

definition field_declaration :: "RuleElement \<Rightarrow> string" where
  "field_declaration elem =
     ''    private final '' @ get_field_type elem @ '' '' @ field_name_of elem @ '';''"


section \<open>Alternatives are split at depth zero only\<close>

lemma segments_ne: "segments d s \<noteq> []"
  by (induction s arbitrary: d) (auto simp: Let_def)

lemma segments_Cons:
  "segments d (c # cs) =
     (if c = CHR ''|'' \<and> d = 0 then [] # segments d cs
      else (c # hd (segments (d + delta c) cs)) # tl (segments (d + delta c) cs))"
  by (simp add: Let_def)

lemma split_loop_Cons:
  "split_loop (c # cs) parts current d =
     (if c = CHR ''|'' \<and> d = 0 then split_loop cs (parts @ [strip current]) [] d
      else split_loop cs parts (current @ [c]) (d + delta c))"
  by (simp add: delta_def)

lemma split_loop_segments:
  "split_loop cs parts current d =
     (let ss = segments d cs; ts = (current @ hd ss) # tl ss
      in (parts @ map strip (butlast ts), last ts))"
proof (induction cs arbitrary: parts current d)
  case Nil
  then show ?case by simp
next
  case (Cons c cs)
  show ?case
  proof (cases "c = CHR ''|'' \<and> d = 0")
    case True
    obtain s ss where "segments d cs = s # ss"
      using segments_ne[of d cs] by (cases "segments d cs") auto
    with True show ?thesis
      unfolding split_loop_Cons segments_Cons if_P[OF True] Cons.IH by (simp add: Let_def)
  next
    case False
    obtain s ss where "segments (d + delta c) cs = s # ss"
      using segments_ne[of "d + delta c" cs] by (cases "segments (d + delta c) cs") auto
    then show ?thesis
      unfolding split_loop_Cons segments_Cons if_not_P[OF False] Cons.IH by (simp add: Let_def)
  qed
qed

lemma join_segments: "join ''|'' (segments d s) = s"
proof (induction s arbitrary: d)
  case Nil then show ?case by simp
next
  case (Cons c cs)
  show ?case
  proof (cases "c = CHR ''|'' \<and> d = 0")
    case True
    obtain s ss where e: "segments d cs = s # ss"
      using segments_ne[of d cs] by (cases "segments d cs") auto
    show ?thesis using Cons[of d] unfolding segments_Cons if_P[OF True] e by (simp add: True)
  next
    case False
    obtain s ss where e: "segments (d + delta c) cs = s # ss"
      using segments_ne[of "d + delta c" cs] by (cases "segments (d + delta c) cs") auto
    show ?thesis using Cons[of "d + delta c"] unfolding segments_Cons if_not_P[OF False] e
      by (cases ss) auto
  qed
qed

lemma length_segments:
  "length (segments d s) =
     Suc (length [i \<leftarrow> [0..<length s]. s ! i = CHR ''|'' \<and> d + nesting_depth (take i s) = 0])"
proof (induction s arbitrary: d)
  case Nil then show ?case by simp
next
  case (Cons c cs)
  have upt: "[0..<length (c # cs)] = 0 # map Suc [0..<length cs]"
    by (simp add: upt_conv_Cons map_Suc_upt del: upt_Suc)
  have nd: "nesting_depth (x # xs) = delta x + nesting_depth xs" for x xs
    by (simp add: nesting_depth_def)
  have nd0: "nesting_depth [] = 0" by (simp add: nesting_depth_def)
  show ?case
  proof (cases "c = CHR ''|'' \<and> d = 0")
    case True
    then have "delta c = 0" by (simp add: delta_def)
    then show ?thesis
      unfolding upt segments_Cons if_P[OF True] by (simp add: True Cons filter_map o_def nd nd0)
  next
    case False
    have "length (segments d (c # cs)) = length (segments (d + delta c) cs)"
      using segments_ne[of "d + delta c" cs] unfolding segments_Cons if_not_P[OF False] by simp
    moreover have "\<not> (c = CHR ''|'' \<and> d + nesting_depth [] = 0)"
      using False by (simp add: nesting_depth_def)
    ultimately show ?thesis
      unfolding upt by (simp add: Cons filter_map o_def nd nd0 add.assoc)
  qed
qed

lemma split_alternatives_segments:
  "split_alternatives body =
     (let ss = segments 0 body;
          ps = map strip (butlast ss) @ (if last ss \<noteq> [] then [strip (last ss)] else [])
      in if ps \<noteq> [] then ps else [body])"
proof -
  obtain s ss where e: "segments 0 body = s # ss"
    using segments_ne[of 0 body] by (cases "segments 0 body") auto
  show ?thesis
    unfolding split_alternatives_def split_loop_segments e
    by (cases ss rule: rev_cases) (simp_all add: Let_def)
qed

lemma segments_plain_append:
  "plain s \<Longrightarrow> segments d (s @ t) = (s @ hd (segments d t)) # tl (segments d t)"
proof (induction s)
  case Nil
  then show ?case using segments_ne[of d t] by simp
next
  case (Cons c s)
  then have "plain s" and c: "c \<noteq> CHR ''|''" "delta c = 0"
    by (auto simp: plain_def delta_def)
  with Cons.IH show ?case
    unfolding append_Cons segments_Cons by simp
qed

lemma segments_group:
  assumes "plain a" "plain x" "plain y" "plain b"
  shows "segments 0 (a @ ''('' @ x @ ''|'' @ y @ '')'' @ b) = [a @ ''('' @ x @ ''|'' @ y @ '')'' @ b]"
proof -
  have b: "segments 0 b = [b]"
    using segments_plain_append[OF assms(4), of 0 "[]"] by simp
  have 1: "segments 1 ('')'' @ b) = ['')'' @ b]"
    using b by (simp add: segments_Cons delta_def)
  have 2: "segments 1 (y @ '')'' @ b) = [y @ '')'' @ b]"
    using segments_plain_append[OF assms(3), of 1 "'')'' @ b"] 1 by simp
  have 3: "segments 1 (''|'' @ y @ '')'' @ b) = [''|'' @ y @ '')'' @ b]"
    using 2 by (simp add: segments_Cons delta_def)
  have 4: "segments 1 (x @ ''|'' @ y @ '')'' @ b) = [x @ ''|'' @ y @ '')'' @ b]"
    using segments_plain_append[OF assms(2), of 1 "''|'' @ y @ '')'' @ b"] 3 by simp
  have 5: "segments 0 (''('' @ x @ ''|'' @ y @ '')'' @ b) = [''('' @ x @ ''|'' @ y @ '')'' @ b]"
    using 4 by (simp add: segments_Cons delta_def)
  show ?thesis
    using segments_plain_append[OF assms(1), of 0 "''('' @ x @ ''|'' @ y @ '')'' @ b"] 5 by simp
qed

text \<open>
  Claim C1. The loop of \<open>_split_alternatives\<close> cuts the body exactly at the \<open>|\<close>
  characters whose running nesting depth is zero (the depth going up on \<open>(\<close> and \<open>[\<close> and
  down on \<open>)\<close> and \<open>]\<close>): its result is the stripped segments between those characters,
  the segments joined by \<open>|\<close> give the body back, and there is one cut per \<open>|\<close> met at
  depth zero. A body of the shape \<open>a (x|y) b\<close>, where \<open>a\<close>, \<open>x\<close>, \<open>y\<close> and \<open>b\<close> hold no
  bracket and no \<open>|\<close>, gives exactly one alternative.
\<close>

theorem split_alternatives_depth_zero:
  "split_alternatives body =
     (let ss = segments 0 body;
          ps = map strip (butlast ss) @ (if last ss \<noteq> [] then [strip (last ss)] else [])
      in if ps \<noteq> [] then ps else [body])
   \<and> join ''|'' (segments 0 body) = body
   \<and> length (segments 0 body) =
       Suc (length [i \<leftarrow> [0..<length body].
                      body ! i = CHR ''|'' \<and> nesting_depth (take i body) = 0])
   \<and> (plain a \<and> plain x \<and> plain y \<and> plain b \<longrightarrow>
        split_alternatives (a @ ''('' @ x @ ''|'' @ y @ '')'' @ b)
          = [strip (a @ ''('' @ x @ ''|'' @ y @ '')'' @ b)])"
proof -
  have "plain a \<and> plain x \<and> plain y \<and> plain b \<longrightarrow>
        split_alternatives (a @ ''('' @ x @ ''|'' @ y @ '')'' @ b)
          = [strip (a @ ''('' @ x @ ''|'' @ y @ '')'' @ b)]"
  proof
    assume p: "plain a \<and> plain x \<and> plain y \<and> plain b"
    then have "segments 0 (a @ ''('' @ x @ ''|'' @ y @ '')'' @ b)
               = [a @ ''('' @ x @ ''|'' @ y @ '')'' @ b]"
      using segments_group[of a x y b] by blast
    then show "split_alternatives (a @ ''('' @ x @ ''|'' @ y @ '')'' @ b)
          = [strip (a @ ''('' @ x @ ''|'' @ y @ '')'' @ b)]"
      unfolding split_alternatives_segments by (simp add: Let_def)
  qed
  moreover have "length (segments 0 body) =
       Suc (length [i \<leftarrow> [0..<length body].
                      body ! i = CHR ''|'' \<and> nesting_depth (take i body) = 0])"
    using length_segments[of 0 body] by simp
  ultimately show ?thesis
    using split_alternatives_segments[of body] join_segments[of 0 body] by blast
qed

theorem split_alternatives_depth_zero_witness:
  "plain ''a '' \<and> plain ''x'' \<and> plain ''y'' \<and> plain '' b''
   \<and> split_alternatives ''a (x|y) b'' = [''a (x|y) b'']"
proof -
  have p: "plain ''a '' \<and> plain ''x'' \<and> plain ''y'' \<and> plain '' b''"
    by (simp add: plain_def)
  have "split_alternatives (''a '' @ ''('' @ ''x'' @ ''|'' @ ''y'' @ '')'' @ '' b'')
          = [strip (''a '' @ ''('' @ ''x'' @ ''|'' @ ''y'' @ '')'' @ '' b'')]"
    using split_alternatives_depth_zero[of "[]" "''a ''" "''x''" "''y''" "'' b''"] p by blast
  then show ?thesis
    using p by (simp add: strip_def isspace_def)
qed

section \<open>Rules with labeled alternatives\<close>

lemma generate_class_labeled:
  assumes "has_labeled_alternative rule"
  shows "generate_class bp rule sd = None"
proof (rule ccontr)
  assume "generate_class bp rule sd \<noteq> None"
  then obtain r where h: "generate_class bp rule sd = Some r" by auto
  have "\<not> has_labeled_alternative rule"
    by (rule generate_class.raw_induct
          [where P = "\<lambda>bp rule sd y. \<not> has_labeled_alternative rule", OF _ h])
       (auto split: if_splits)
  with assms show False by simp
qed

lemma generate_class_unlabeled:
  "\<not> has_labeled_alternative rule \<Longrightarrow> generate_class bp rule sd = Some (class_text bp rule sd)"
  by (subst generate_class.simps) simp

lemma parse_choice:
  "parse ''choice : a #alt_a | b #alt_b ;'' =
     [(''choice'', \<lparr>rule_name = ''choice'', alternatives =
        [\<lparr>label = Some ''alt_a'', elements =
            [\<lparr>name = ''a'', is_token = False, cardinality = [], is_rule_ref = True\<rparr>]\<rparr>,
         \<lparr>label = Some ''alt_b'', elements =
            [\<lparr>name = ''b'', is_token = False, cardinality = [], is_rule_ref = True\<rparr>]\<rparr>]\<rparr>)]"
  by code_simp

text \<open>
  Claim C7. For the grammar \<open>choice : a #alt_a | b #alt_b ;\<close> the claim asks for a node
  class made from the first alternative. \<open>_generate_class\<close> finds a label, calls
  \<open>_generate_interface_with_implementations\<close>, and that calls \<open>_generate_class\<close> with the
  same rule again: the call never returns a class text, whatever the package and the
  subdirectory are.
\<close>

theorem generate_class_choice_no_result:
  "generate_class base_package (snd (hd (parse ''choice : a #alt_a | b #alt_b ;''))) subdir = None"
  unfolding parse_choice by (rule generate_class_labeled) (simp add: has_labeled_alternative_def)

section \<open>The first alternative of an extracted rule\<close>

lemma split_alternatives_nonempty: "split_alternatives body \<noteq> []"
  by (simp add: split_alternatives_def Let_def split: prod.splits)

lemma set_alist_update_subset: "set (AList.update k v al) \<subseteq> insert (k, v) (set al)"
  by (induction al) auto

lemma parse_loop_invariant:
  "\<forall>(k, r) \<in> set rules. P k r \<Longrightarrow> (\<And>k b. P k (parse_rule k b))
   \<Longrightarrow> \<forall>(k, r) \<in> set (parse_loop ms rules). P k r"
proof (induction ms arbitrary: rules)
  case Nil
  then show ?case by simp
next
  case (Cons m ms)
  obtain n b where m: "m = (n, b)" by (cases m)
  have "\<forall>(k, r) \<in> set (AList.update n (parse_rule n b) rules). P k r"
    using Cons.prems set_alist_update_subset[of n "parse_rule n b" rules] by fastforce
  with Cons show ?case unfolding m by simp
qed

lemma first_alternative_parse_rule:
  "\<exists>alt rest. alternatives (parse_rule rname body) = alt # rest
               \<and> first_alternative (parse_rule rname body) = alt"
  using split_alternatives_nonempty[of body]
  by (cases "split_alternatives body") (simp_all add: parse_rule_def first_alternative_def)

text \<open>
  Claim C10. Splitting a rule body never returns the empty list: when the loop leaves
  no part (which is the case of the empty body) the result is the body itself as the one
  alternative. So a rule made by \<open>_parse_rule\<close>, and every rule of the dictionary that
  \<open>parse\<close> returns, has a first alternative, which is what the generators take; for a
  rule without alternatives they take the empty alternative instead.
\<close>

theorem first_alternative_always_there:
  "split_alternatives body \<noteq> []
   \<and> (split_loop body [] [] 0 = ([], []) \<longrightarrow> split_alternatives body = [body])
   \<and> (\<exists>alt rest. alternatives (parse_rule rname body) = alt # rest
                    \<and> first_alternative (parse_rule rname body) = alt)
   \<and> first_alternative \<lparr>rule_name = rname, alternatives = []\<rparr> = \<lparr>label = None, elements = []\<rparr>
   \<and> (\<forall>(k, rule) \<in> set (parse content).
         \<exists>alt rest. alternatives rule = alt # rest \<and> first_alternative rule = alt)"
proof -
  have "\<forall>(k, rule) \<in> set (parse content).
         \<exists>alt rest. alternatives rule = alt # rest \<and> first_alternative rule = alt"
    unfolding parse_def
  proof (rule parse_loop_invariant)
    show "\<forall>(k, rule) \<in> set [].
            \<exists>alt rest. alternatives rule = alt # rest \<and> first_alternative rule = alt"
      by simp
    show "\<exists>alt rest. alternatives (parse_rule k b) = alt # rest
                        \<and> first_alternative (parse_rule k b) = alt" for k b
      by (rule first_alternative_parse_rule)
  qed
  moreover have "split_loop body [] [] 0 = ([], []) \<longrightarrow> split_alternatives body = [body]"
    by (simp add: split_alternatives_def)
  moreover have "first_alternative \<lparr>rule_name = rname, alternatives = []\<rparr>
                 = \<lparr>label = None, elements = []\<rparr>"
    by (simp add: first_alternative_def)
  ultimately show ?thesis
    using split_alternatives_nonempty[of body] first_alternative_parse_rule[of rname body]
    by blast
qed

theorem first_alternative_always_there_witness:
  "split_loop [] [] [] 0 = ([], []) \<and> split_alternatives [] = [[]]
   \<and> first_alternative (parse_rule ''r'' []) = \<lparr>label = None, elements = []\<rparr>"
proof -
  have "split_alternatives [] = [[]]"
    using first_alternative_always_there[of "[]" "''r''" "[]"] by simp
  then show ?thesis
    by (simp add: parse_rule_def first_alternative_def parse_rule_alt_def parse_alternative_def)
qed

section \<open>Extraction raises no error\<close>

lemma map_of_parse_loop:
  "map_of (parse_loop ms rules) n =
     (case (if should_skip_rule n then None else map_of (rev ms) n) of
        Some b \<Rightarrow> Some (parse_rule n b)
      | None \<Rightarrow> map_of rules n)"
proof (induction ms arbitrary: rules)
  case Nil
  then show ?case by simp
next
  case (Cons m ms)
  obtain k b where m: "m = (k, b)" by (cases m)
  show ?case
    unfolding m
    by (auto simp: Cons update_conv' map_add_def split: option.splits)
qed

lemma map_of_parse:
  "map_of (parse content) n =
     (if should_skip_rule n then None
      else map_option (parse_rule n) (map_of (rev (rule_finditer True content)) n))"
  unfolding parse_def map_of_parse_loop by (auto split: option.splits)

text \<open>
  Claim C3, as stated, fails: in the body \<open>a ) | b\<close> the nesting depth is negative after
  \<open>a )\<close>, and the rule is extracted all the same, with the one alternative \<open>a ) | b\<close>; and
  the text \<open>r :;\<close>, which the rule pattern does not match, gives no rule and no error.
\<close>

theorem unbalanced_rule_is_extracted:
  "nesting_depth ''a )'' < 0
   \<and> parse ''r : a ) | b ;'' =
       [(''r'', \<lparr>rule_name = ''r'', alternatives =
          [\<lparr>label = None, elements =
              [\<lparr>name = ''a'', is_token = False, cardinality = [], is_rule_ref = True\<rparr>,
               \<lparr>name = ''b'', is_token = False, cardinality = [], is_rule_ref = True\<rparr>]\<rparr>]\<rparr>)]
   \<and> parse ''r :;'' = []"
  by code_simp

text \<open>
  Claim C3, amended. Extraction has no error: every match of the rule pattern whose name
  is not excluded is in the dictionary, with the rule parsed from the last body matched
  under that name, whatever the nesting of that body or of the other bodies is; the
  excluded names and the names never matched are absent.
\<close>

theorem parse_keeps_every_matched_rule:
  "map_of (parse content) n =
     (if should_skip_rule n then None
      else map_option (parse_rule n) (map_of (rev (rule_finditer True content)) n))
   \<and> (\<forall>(k, body) \<in> set (rule_finditer True content).
         \<not> should_skip_rule k \<longrightarrow> (\<exists>body'. map_of (parse content) k = Some (parse_rule k body')))"
proof -
  have "\<exists>body'. map_of (parse content) k = Some (parse_rule k body')"
    if "(k, body) \<in> set (rule_finditer True content)" "\<not> should_skip_rule k" for k body
  proof -
    have "k \<in> fst ` set (rev (rule_finditer True content))"
      using that(1) by force
    then obtain b where "map_of (rev (rule_finditer True content)) k = Some b"
      using map_of_eq_None_iff[of "rev (rule_finditer True content)" k] by fastforce
    with that(2) show ?thesis by (auto simp: map_of_parse)
  qed
  then show ?thesis using map_of_parse[of content n] by blast
qed

theorem parse_keeps_every_matched_rule_witness:
  "(''r'', ''a ) | b'') \<in> set (rule_finditer True ''r : a ) | b ;'') \<and> \<not> should_skip_rule ''r''
   \<and> (\<exists>body'. map_of (parse ''r : a ) | b ;'') ''r'' = Some (parse_rule ''r'' body'))"
proof -
  have f: "rule_finditer True ''r : a ) | b ;'' = [(''r'', ''a ) | b'')]" by code_simp
  have s: "\<not> should_skip_rule ''r''" by (simp add: should_skip_rule_def)
  from f s parse_keeps_every_matched_rule[of "''r : a ) | b ;''" "''r''"]
  show ?thesis by fastforce
qed

section \<open>Labels of alternatives\<close>

lemma lower_start_not_space: "lower_start d \<Longrightarrow> \<not> isspace d"
  by (auto simp: lower_start_def isspace_def less_eq_char_def)

lemma lower_start_lower_char: "lower_start d \<Longrightarrow> lower_char d"
  by (auto simp: lower_start_def lower_char_def)

lemma label_match_marker:
  assumes "\<forall>c\<in>set ws. isspace c" "lower_start d" "\<forall>c\<in>set ds. lower_char c"
    "post = [] \<or> \<not> lower_char (hd post)"
  shows "label_match (CHR ''#'' # ws @ d # ds @ post) = Some (d # ds, post)"
proof -
  have 1: "dropWhile isspace (ws @ d # ds @ post) = d # ds @ post"
    using assms(1,2) lower_start_not_space by (simp add: dropWhile_append3)
  have 2: "takeWhile lower_char (ds @ post) = ds"
    using assms(3,4) by (cases post) (simp_all add: takeWhile_tail)
  have 3: "dropWhile lower_char (ds @ post) = post"
    using assms(3,4) by (cases post) (simp_all add: dropWhile_append2 dropWhile_append3)
  show ?thesis
    unfolding label_match_def using assms(2) by (simp add: 1 2 3)
qed

lemma label_match_no_hash: "CHR ''#'' \<noteq> c \<Longrightarrow> label_match (c # cs) = None"
  by (auto simp: label_match_def)

lemma label_sub_no_hash: "CHR ''#'' \<notin> set t \<Longrightarrow> label_sub t = t"
  by (induction t) (simp_all add: label_match_no_hash)

lemma label_search_first:
  "\<forall>k<length pre. label_match (drop k (pre @ t)) = None \<Longrightarrow> label_match t = Some (l, r)
   \<Longrightarrow> label_search (pre @ t) = Some l"
proof (induction pre)
  case Nil
  then show ?case by (cases t) (simp_all add: label_match_def)
next
  case (Cons c pre)
  from Cons.prems(1) have 0: "label_match (c # pre @ t) = None" by force
  have "\<forall>k<length pre. label_match (drop k (pre @ t)) = None"
  proof (intro allI impI)
    fix k assume "k < length pre"
    then have "Suc k < length (c # pre)" by simp
    with Cons.prems(1) have "label_match (drop (Suc k) ((c # pre) @ t)) = None" by blast
    then show "label_match (drop k (pre @ t)) = None" by simp
  qed
  with Cons.IH Cons.prems(2) 0 show ?case by simp
qed

lemma label_sub_first:
  "\<forall>k<length pre. label_match (drop k (pre @ t)) = None \<Longrightarrow> label_match t = Some (l, r)
   \<Longrightarrow> label_sub (pre @ t) = pre @ label_sub r"
proof (induction pre)
  case Nil
  then show ?case by (cases t) (simp_all add: label_match_def)
next
  case (Cons c pre)
  from Cons.prems(1) have 0: "label_match (c # pre @ t) = None" by force
  have "\<forall>k<length pre. label_match (drop k (pre @ t)) = None"
  proof (intro allI impI)
    fix k assume "k < length pre"
    then have "Suc k < length (c # pre)" by simp
    with Cons.prems(1) have "label_match (drop (Suc k) ((c # pre) @ t)) = None" by blast
    then show "label_match (drop k (pre @ t)) = None" by simp
  qed
  with Cons.IH Cons.prems(2) 0 show ?case by simp
qed

lemma label_search_none:
  "\<forall>k<length s. label_match (drop k s) = None \<Longrightarrow> label_search s = None"
proof (induction s)
  case Nil
  then show ?case by simp
next
  case (Cons c s)
  from Cons.prems have 0: "label_match (c # s) = None" by force
  have "\<forall>k<length s. label_match (drop k s) = None"
  proof (intro allI impI)
    fix k assume "k < length s"
    then have "Suc k < length (c # s)" by simp
    with Cons.prems have "label_match (drop (Suc k) (c # s)) = None" by blast
    then show "label_match (drop k s) = None" by simp
  qed
  with Cons.IH 0 show ?case by simp
qed

text \<open>
  Claim C8, as stated, fails. The text \<open>a #foo b #bar\<close> contains \<open>#bar\<close>, a \<open>#\<close> followed by a
  lowercase identifier, but \<open>bar\<close> is not recorded: the label is \<open>foo\<close>, the identifier of
  the first marker. Both markers are removed before the elements are read.
\<close>

theorem second_marker_is_not_the_label:
  "parse_rule_alt ''a #foo b #bar''
     = \<lparr>label = Some ''foo'', elements =
          [\<lparr>name = ''a'', is_token = False, cardinality = [], is_rule_ref = True\<rparr>,
           \<lparr>name = ''b'', is_token = False, cardinality = [], is_rule_ref = True\<rparr>]\<rparr>
   \<and> label (parse_rule_alt ''a #foo b #bar'') \<noteq> Some ''bar''"
  by code_simp

text \<open>
  Claim C8, amended. Take an alternative text with a marker, that is a \<open>#\<close>, optional white
  space and a lowercase identifier (taken to its end), such that no marker starts before
  it; a \<open>#\<close> that starts no marker may come before it. The identifier of this first marker
  is the label of the alternative, and the elements are those of the text before the
  marker followed by the text after it, from which the further markers are removed as
  well: the characters of a marker give no element. When no \<open>#\<close> follows, the elements are
  exactly those of the text with the marker cut out. A text in which no marker starts
  has no label, and its elements are read from the text as it is.
\<close>

theorem first_label_recorded_and_markers_stripped:
  assumes "\<forall>k<length pre. label_match (drop k (pre @ ''#'' @ ws @ d # ds @ post)) = None"
    "\<forall>c\<in>set ws. isspace c" "lower_start d" "\<forall>c\<in>set ds. lower_char c"
    "post = [] \<or> \<not> lower_char (hd post)"
  shows "parse_rule_alt (pre @ ''#'' @ ws @ d # ds @ post)
           = \<lparr>label = Some (d # ds), elements = parse_alternative (pre @ label_sub post)\<rparr>
         \<and> (CHR ''#'' \<notin> set post \<longrightarrow>
              elements (parse_rule_alt (pre @ ''#'' @ ws @ d # ds @ post)) = parse_alternative (pre @ post))
         \<and> ((\<forall>k<length s. label_match (drop k s) = None) \<longrightarrow>
              parse_rule_alt s = \<lparr>label = None, elements = parse_alternative s\<rparr>)"
proof -
  have m: "label_match (''#'' @ ws @ d # ds @ post) = Some (d # ds, post)"
    using label_match_marker[OF assms(2-5)] by simp
  have "label_search (pre @ ''#'' @ ws @ d # ds @ post) = Some (d # ds)"
    by (rule label_search_first[OF assms(1) m])
  moreover have "label_sub (pre @ ''#'' @ ws @ d # ds @ post) = pre @ label_sub post"
    by (rule label_sub_first[OF assms(1) m])
  ultimately have 1: "parse_rule_alt (pre @ ''#'' @ ws @ d # ds @ post)
           = \<lparr>label = Some (d # ds), elements = parse_alternative (pre @ label_sub post)\<rparr>"
    by (simp add: parse_rule_alt_def)
  have 2: "CHR ''#'' \<notin> set post \<longrightarrow>
      elements (parse_rule_alt (pre @ ''#'' @ ws @ d # ds @ post)) = parse_alternative (pre @ post)"
    unfolding 1 by (simp add: label_sub_no_hash)
  have 3: "(\<forall>k<length s. label_match (drop k s) = None) \<longrightarrow>
              parse_rule_alt s = \<lparr>label = None, elements = parse_alternative s\<rparr>"
    using label_search_none[of s] by (simp add: parse_rule_alt_def)
  from 1 2 3 show ?thesis by blast
qed

theorem first_label_recorded_and_markers_stripped_witness:
  "parse_rule_alt ''#X a #foo'' = \<lparr>label = Some ''foo'', elements =
      [\<lparr>name = ''X'', is_token = True, cardinality = [], is_rule_ref = False\<rparr>,
       \<lparr>name = ''a'', is_token = False, cardinality = [], is_rule_ref = True\<rparr>]\<rparr>
   \<and> parse_rule_alt ''X a'' = \<lparr>label = None, elements =
      [\<lparr>name = ''X'', is_token = True, cardinality = [], is_rule_ref = False\<rparr>,
       \<lparr>name = ''a'', is_token = False, cardinality = [], is_rule_ref = True\<rparr>]\<rparr>"
proof -
  have e: "parse_alternative ''#X a '' =
      [\<lparr>name = ''X'', is_token = True, cardinality = [], is_rule_ref = False\<rparr>,
       \<lparr>name = ''a'', is_token = False, cardinality = [], is_rule_ref = True\<rparr>]"
    "parse_alternative ''X a'' =
      [\<lparr>name = ''X'', is_token = True, cardinality = [], is_rule_ref = False\<rparr>,
       \<lparr>name = ''a'', is_token = False, cardinality = [], is_rule_ref = True\<rparr>]"
    by code_simp+
  have l: "lower_start CHR ''f''" "\<forall>c\<in>set ''oo''. lower_char c"
    by (simp_all add: lower_start_def lower_char_def less_eq_char_def)
  have n: "\<forall>k<length ''#X a ''. label_match (drop k (''#X a '' @ ''#'' @ [] @ CHR ''f'' # ''oo'' @ [])) = None"
    by (simp add: All_less_Suc numeral_eq_Suc label_match_def isspace_def lower_start_def less_eq_char_def)
  have n2: "\<forall>k<length ''X a''. label_match (drop k ''X a'') = None"
    by (simp add: All_less_Suc numeral_eq_Suc label_match_def)
  note t = first_label_recorded_and_markers_stripped[of "''#X a ''" "[]" "CHR ''f''" "''oo''" "[]" "''X a''", OF n _ l(1) l(2)]
  have "parse_rule_alt (''#X a '' @ ''#'' @ [] @ CHR ''f'' # ''oo'' @ [])
           = \<lparr>label = Some (CHR ''f'' # ''oo''), elements = parse_alternative (''#X a '' @ label_sub [])\<rparr>"
    using t by simp
  moreover have "parse_rule_alt ''X a'' = \<lparr>label = None, elements = parse_alternative ''X a''\<rparr>"
    using t n2 by simp
  ultimately show ?thesis using e by simp
qed

section \<open>The generator loops keep the first element of each field name\<close>

lemma keep_first_subset: "set (keep_first f xs) \<subseteq> set xs"
proof (induction f xs rule: keep_first.induct)
  case (1 f)
  then show ?case by simp
next
  case (2 f x xs)
  then show ?case by auto
qed

lemma keep_first_image: "f ` set (keep_first f xs) = f ` set xs"
proof (induction f xs rule: keep_first.induct)
  case (1 f)
  then show ?case by simp
next
  case (2 f x xs)
  have "f ` set (x # xs) = insert (f x) (f ` set (filter (\<lambda>y. f y \<noteq> f x) xs))"
    by auto
  with 2 show ?case by simp
qed

lemma keep_first_distinct: "distinct (map f (keep_first f xs))"
proof (induction f xs rule: keep_first.induct)
  case (1 f)
  then show ?case by simp
next
  case (2 f x xs)
  have "f x \<notin> f ` set (keep_first f (filter (\<lambda>y. f y \<noteq> f x) xs))"
    unfolding keep_first_image by auto
  with 2 show ?case by simp
qed

lemma keep_first_append:
  "keep_first f (xs @ ys) = keep_first f xs @ keep_first f (filter (\<lambda>y. f y \<notin> f ` set xs) ys)"
proof (induction f xs arbitrary: ys rule: keep_first.induct)
  case (1 f)
  then show ?case by simp
next
  case (2 f x xs)
  let ?P = "\<lambda>y. f y \<noteq> f x"
  have e: "filter (\<lambda>y. f y \<notin> f ` set (filter ?P xs)) (filter ?P ys)
           = filter (\<lambda>y. f y \<notin> f ` set (x # xs)) ys"
    by (induction ys) auto
  have "keep_first f ((x # xs) @ ys) = x # keep_first f (filter ?P xs @ filter ?P ys)"
    by simp
  also have "\<dots> = x # keep_first f (filter ?P xs)
                     @ keep_first f (filter (\<lambda>y. f y \<notin> f ` set (filter ?P xs)) (filter ?P ys))"
    by (simp only: "2.IH" append_Cons)
  also have "\<dots> = keep_first f (x # xs) @ keep_first f (filter (\<lambda>y. f y \<notin> f ` set (x # xs)) ys)"
    by (simp only: e keep_first.simps append_Cons)
  finally show ?case .
qed

lemma keep_first_drop_later:
  assumes "f e \<in> f ` set xs"
  shows "keep_first f (xs @ e # zs) = keep_first f (xs @ zs)"
  using assms by (simp add: keep_first_append)

lemma keep_first_none:
  assumes "\<forall>w\<in>set ws. f w \<noteq> v"
  shows "filter (\<lambda>k. f k = v) (keep_first f ws) = []"
  using assms keep_first_subset[of f ws] by (auto simp: filter_empty_conv)

lemma keep_first_only_first:
  assumes "\<forall>x\<in>set xs. f x \<noteq> f e"
  shows "filter (\<lambda>k. f k = f e) (keep_first f (xs @ e # rest)) = [e]"
proof -
  let ?r = "filter (\<lambda>y. f y \<noteq> f e) (filter (\<lambda>y. f y \<notin> f ` set xs) rest)"
  have 2: "filter (\<lambda>y. f y \<notin> f ` set xs) (e # rest) = e # filter (\<lambda>y. f y \<notin> f ` set xs) rest"
    using assms by auto
  have k: "keep_first f (xs @ e # rest) = keep_first f xs @ e # keep_first f ?r"
    by (simp only: keep_first_append 2 keep_first.simps)
  have 1: "filter (\<lambda>k. f k = f e) (keep_first f xs) = []"
    by (rule keep_first_none) (use assms in auto)
  have 3: "filter (\<lambda>k. f k = f e) (keep_first f ?r) = []"
    by (rule keep_first_none) simp
  show ?thesis
    unfolding k by (simp only: filter_append filter.simps 1 3 append_Nil if_True refl)
qed

lemma filter_seen_insert:
  "filter (\<lambda>y. f y \<noteq> f e) (filter (\<lambda>x. P x \<and> f x \<notin> S) es)
   = filter (\<lambda>x. P x \<and> f x \<notin> insert (f e) S) es"
  by (induction es) auto

lemma generate_fields_loop_keep:
  "generate_fields_loop es acc S =
     acc @ map field_declaration
             (keep_first field_name_of (filter (\<lambda>x. is_rule_ref x \<and> field_name_of x \<notin> S) es))"
proof (induction es arbitrary: acc S)
  case Nil
  then show ?case by simp
next
  case (Cons e es)
  show ?case
  proof (cases "is_rule_ref e \<and> field_name_of e \<notin> S")
    case True
    then show ?thesis
      using filter_seen_insert[of field_name_of e is_rule_ref S es]
      by (simp add: Cons Let_def field_name_of_def[symmetric] field_declaration_def)
  next
    case False
    then show ?thesis
      by (auto simp add: Cons Let_def field_name_of_def[symmetric])
  qed
qed

lemma generate_visit_body_loop_keep:
  "generate_visit_body_loop rule es ls args S =
     (ls @ concat (map (\<lambda>e. fst (visit_element_lines rule e))
             (keep_first field_name_of (filter (\<lambda>x. is_rule_ref x \<and> field_name_of x \<notin> S) es))),
      args @ map (\<lambda>e. snd (visit_element_lines rule e))
             (keep_first field_name_of (filter (\<lambda>x. is_rule_ref x \<and> field_name_of x \<notin> S) es)))"
proof (induction es arbitrary: ls args S)
  case Nil
  then show ?case by simp
next
  case (Cons e es)
  show ?case
  proof (cases "is_rule_ref e \<and> field_name_of e \<notin> S")
    case True
    then show ?thesis
      using filter_seen_insert[of field_name_of e is_rule_ref S es]
      by (simp add: Cons Let_def field_name_of_def[symmetric])
  next
    case False
    then show ?thesis
      by (auto simp add: Cons Let_def field_name_of_def[symmetric])
  qed
qed

lemma generate_fields_field_elements:
  "generate_fields alt =
     (if field_elements alt \<noteq> [] then join [CHR 0x0A] (map field_declaration (field_elements alt))
      else ''    // No child nodes'')"
  by (simp add: generate_fields_def generate_fields_loop_keep field_elements_def Let_def)

lemma generate_visit_body_field_elements:
  "generate_visit_body rule alt =
     join [CHR 0x0A]
       (concat (map (\<lambda>e. fst (visit_element_lines rule e)) (field_elements alt)) @
        [if field_elements alt \<noteq> []
         then ''        return new '' @ java_class_name rule @ ''(''
              @ join '', '' (map (\<lambda>e. snd (visit_element_lines rule e)) (field_elements alt)) @ '');''
         else ''        return new '' @ java_class_name rule @ ''();''])"
  by (simp add: generate_visit_body_def generate_visit_body_loop_keep field_elements_def)

lemma field_elements_drop_later:
  assumes "is_rule_ref e1" "field_name_of e2 = field_name_of e1"
  shows "field_elements \<lparr>label = l, elements = xs @ e1 # ys @ e2 # zs\<rparr>
         = field_elements \<lparr>label = l, elements = xs @ e1 # ys @ zs\<rparr>"
proof (cases "is_rule_ref e2")
  case False
  then show ?thesis by (simp add: field_elements_def)
next
  case True
  have "field_name_of e2 \<in> field_name_of ` set (filter is_rule_ref (xs @ e1 # ys))"
    using assms by force
  from keep_first_drop_later[OF this, of "filter is_rule_ref zs"] True assms(1)
  show ?thesis by (simp add: field_elements_def)
qed

text \<open>
  Claim C5, as stated, fails. In \<open>r : A _a ;\<close> the names of both elements normalize to the
  field name \<open>A\<close>. The first of them is a token and produces neither a field nor a
  parameter; the later one, a rule reference, is not dropped: it gives the one field and
  the one parameter.
\<close>

theorem token_first_duplicate_keeps_later:
  "map (\<lambda>e. (name e, is_rule_ref e, field_name_of e))
       (elements (first_alternative (snd (hd (parse ''r : A _a ;'')))))
     = [(''A'', False, ''A''), (''_a'', True, ''A'')]
   \<and> map name (field_elements (first_alternative (snd (hd (parse ''r : A _a ;''))))) = [''_a'']
   \<and> generate_fields (first_alternative (snd (hd (parse ''r : A _a ;''))))
     = ''    private final A A;''
   \<and> generate_visit_body (snd (hd (parse ''r : A _a ;'')))
        (first_alternative (snd (hd (parse ''r : A _a ;''))))
     = join [CHR 0x0A]
         [''        A A;'',
          ''        if (ctx._a() == null) {'',
          ''            throw new TransformationException(\"r missing _a\");'',
          ''        }'',
          ''        A = (A) visit(ctx._a());'',
          ''        return new R(A);'']"
  by code_simp

lemma visit_element_lines_parameter:
  "snd (visit_element_lines rule e)
     = (if cardinality e = ''*'' \<or> cardinality e = ''+''
        then to_camel_case (name e) @ ''List'' else to_camel_case (name e))"
  by (simp add: visit_element_lines_def is_list_def Let_def)

lemma visit_element_lines_variable:
  "hd (fst (visit_element_lines rule e))
     = (if cardinality e = ''*'' \<or> cardinality e = ''+''
        then ''        List<'' @ rule_to_class_name (name e) @ ''> '' @ to_camel_case (name e)
               @ ''List = new ArrayList<>();''
        else if cardinality e = ''?''
        then ''        '' @ rule_to_class_name (name e) @ '' '' @ to_camel_case (name e) @ '' = null;''
        else ''        '' @ rule_to_class_name (name e) @ '' '' @ to_camel_case (name e) @ '';'')"
  by (simp add: visit_element_lines_def is_list_def is_optional_def Let_def)

text \<open>
  Claim C5, amended. Of the rule references of an alternative whose names give the same
  field name in camel case, only the first produces a field in the schema and a
  parameter in the construction routine; tokens are left out before names are compared.
  The field declarations and the routine are made from the elements kept by
  \<open>field_elements\<close>, the first rule reference of each field name: each kept element gives the
  declaration of a field of its field name, a local variable declared in the first line
  of its block, and one constructor argument, the field name with \<open>List\<close> appended for a
  list. The field names of the kept elements are distinct; of the rule references with one
  field name the kept one is the first; and a later element with the field name of an
  earlier rule reference changes neither the kept elements nor the schema nor the
  routine: all are what they are without it.
\<close>

theorem duplicate_references_dropped:
  "generate_fields alt =
     (if field_elements alt \<noteq> [] then join [CHR 0x0A] (map field_declaration (field_elements alt))
      else ''    // No child nodes'')
   \<and> generate_visit_body rule alt =
     join [CHR 0x0A]
       (concat (map (\<lambda>e. fst (visit_element_lines rule e)) (field_elements alt)) @
        [if field_elements alt \<noteq> []
         then ''        return new '' @ java_class_name rule @ ''(''
              @ join '', '' (map (\<lambda>e. snd (visit_element_lines rule e)) (field_elements alt)) @ '');''
         else ''        return new '' @ java_class_name rule @ ''();''])
   \<and> field_declaration e
       = ''    private final '' @ get_field_type e @ '' '' @ to_camel_case (name e) @ '';''
   \<and> snd (visit_element_lines rule e)
       = (if cardinality e = ''*'' \<or> cardinality e = ''+''
          then to_camel_case (name e) @ ''List'' else to_camel_case (name e))
   \<and> hd (fst (visit_element_lines rule e))
       = (if cardinality e = ''*'' \<or> cardinality e = ''+''
          then ''        List<'' @ rule_to_class_name (name e) @ ''> '' @ to_camel_case (name e)
                 @ ''List = new ArrayList<>();''
          else if cardinality e = ''?''
          then ''        '' @ rule_to_class_name (name e) @ '' '' @ to_camel_case (name e) @ '' = null;''
          else ''        '' @ rule_to_class_name (name e) @ '' '' @ to_camel_case (name e) @ '';'')
   \<and> field_elements alt = keep_first (\<lambda>x. to_camel_case (name x)) (filter is_rule_ref (elements alt))
   \<and> distinct (map (\<lambda>x. to_camel_case (name x)) (field_elements alt))
   \<and> (is_rule_ref e1 \<and> (\<forall>x\<in>set xs. is_rule_ref x \<longrightarrow> to_camel_case (name x) \<noteq> to_camel_case (name e1)) \<longrightarrow>
        filter (\<lambda>k. to_camel_case (name k) = to_camel_case (name e1))
          (field_elements \<lparr>label = l, elements = xs @ e1 # rest\<rparr>) = [e1])
   \<and> (is_rule_ref e1 \<and> to_camel_case (name e2) = to_camel_case (name e1) \<longrightarrow>
        field_elements \<lparr>label = l, elements = xs @ e1 # ys @ e2 # zs\<rparr>
          = field_elements \<lparr>label = l, elements = xs @ e1 # ys @ zs\<rparr>
        \<and> generate_fields \<lparr>label = l, elements = xs @ e1 # ys @ e2 # zs\<rparr>
          = generate_fields \<lparr>label = l, elements = xs @ e1 # ys @ zs\<rparr>
        \<and> generate_visit_body rule \<lparr>label = l, elements = xs @ e1 # ys @ e2 # zs\<rparr>
          = generate_visit_body rule \<lparr>label = l, elements = xs @ e1 # ys @ zs\<rparr>)"
proof -
  have fn: "field_name_of = (\<lambda>x. to_camel_case (name x))"
    by (simp add: fun_eq_iff field_name_of_def)
  have a: "is_rule_ref e1 \<and> (\<forall>x\<in>set xs. is_rule_ref x \<longrightarrow> field_name_of x \<noteq> field_name_of e1) \<longrightarrow>
        filter (\<lambda>k. field_name_of k = field_name_of e1)
          (field_elements \<lparr>label = l, elements = xs @ e1 # rest\<rparr>) = [e1]"
  proof
    assume h: "is_rule_ref e1 \<and> (\<forall>x\<in>set xs. is_rule_ref x \<longrightarrow> field_name_of x \<noteq> field_name_of e1)"
    then have "\<forall>x\<in>set (filter is_rule_ref xs). field_name_of x \<noteq> field_name_of e1" by simp
    from keep_first_only_first[OF this, of "filter is_rule_ref rest"] h
    show "filter (\<lambda>k. field_name_of k = field_name_of e1)
          (field_elements \<lparr>label = l, elements = xs @ e1 # rest\<rparr>) = [e1]"
      by (simp add: field_elements_def)
  qed
  have b: "is_rule_ref e1 \<and> field_name_of e2 = field_name_of e1 \<longrightarrow>
        field_elements \<lparr>label = l, elements = xs @ e1 # ys @ e2 # zs\<rparr>
          = field_elements \<lparr>label = l, elements = xs @ e1 # ys @ zs\<rparr>
        \<and> generate_fields \<lparr>label = l, elements = xs @ e1 # ys @ e2 # zs\<rparr>
          = generate_fields \<lparr>label = l, elements = xs @ e1 # ys @ zs\<rparr>
        \<and> generate_visit_body rule \<lparr>label = l, elements = xs @ e1 # ys @ e2 # zs\<rparr>
          = generate_visit_body rule \<lparr>label = l, elements = xs @ e1 # ys @ zs\<rparr>"
    by (simp only: generate_fields_field_elements generate_visit_body_field_elements)
       (simp add: field_elements_drop_later)
  have c: "field_declaration e
       = ''    private final '' @ get_field_type e @ '' '' @ to_camel_case (name e) @ '';''"
    by (simp add: field_declaration_def field_name_of_def)
  have d: "field_elements alt = keep_first field_name_of (filter is_rule_ref (elements alt))"
    by (simp add: field_elements_def)
  have k: "distinct (map field_name_of (field_elements alt))"
    using keep_first_distinct[of field_name_of "filter is_rule_ref (elements alt)"]
    by (simp add: field_elements_def)
  show ?thesis
    using a b c d k generate_fields_field_elements[of alt]
      generate_visit_body_field_elements[of rule alt]
      visit_element_lines_parameter[of rule e] visit_element_lines_variable[of rule e]
    unfolding fn by blast
qed

theorem duplicate_references_dropped_witness:
  "generate_fields \<lparr>label = None, elements =
         [\<lparr>name = ''item'', is_token = False, cardinality = [], is_rule_ref = True\<rparr>,
          \<lparr>name = ''item'', is_token = False, cardinality = ''*'', is_rule_ref = True\<rparr>]\<rparr>
       = ''    private final Item item;''
   \<and> generate_visit_body \<lparr>rule_name = ''r'', alternatives = []\<rparr> \<lparr>label = None, elements =
         [\<lparr>name = ''item'', is_token = False, cardinality = [], is_rule_ref = True\<rparr>,
          \<lparr>name = ''item'', is_token = False, cardinality = ''*'', is_rule_ref = True\<rparr>]\<rparr>
       = join [CHR 0x0A]
           [''        Item item;'',
            ''        if (ctx.item() == null) {'',
            ''            throw new TransformationException(\"r missing item\");'',
            ''        }'',
            ''        item = (Item) visit(ctx.item());'',
            ''        return new R(item);'']
   \<and> field_elements \<lparr>label = None, elements =
         [\<lparr>name = ''item'', is_token = False, cardinality = [], is_rule_ref = True\<rparr>,
          \<lparr>name = ''item'', is_token = False, cardinality = ''*'', is_rule_ref = True\<rparr>]\<rparr>
       = [\<lparr>name = ''item'', is_token = False, cardinality = [], is_rule_ref = True\<rparr>]"
proof -
  let ?e1 = "\<lparr>name = ''item'', is_token = False, cardinality = [], is_rule_ref = True\<rparr>"
  let ?e2 = "\<lparr>name = ''item'', is_token = False, cardinality = ''*'', is_rule_ref = True\<rparr>"
  let ?rule = "\<lparr>rule_name = ''r'', alternatives = []\<rparr>"
  have h: "is_rule_ref ?e1 \<and> to_camel_case (name ?e2) = to_camel_case (name ?e1)"
    by simp
  have "field_elements \<lparr>label = None, elements = [] @ ?e1 # [] @ ?e2 # []\<rparr>
          = field_elements \<lparr>label = None, elements = [] @ ?e1 # [] @ []\<rparr>
        \<and> generate_fields \<lparr>label = None, elements = [] @ ?e1 # [] @ ?e2 # []\<rparr>
          = generate_fields \<lparr>label = None, elements = [] @ ?e1 # [] @ []\<rparr>
        \<and> generate_visit_body ?rule \<lparr>label = None, elements = [] @ ?e1 # [] @ ?e2 # []\<rparr>
          = generate_visit_body ?rule \<lparr>label = None, elements = [] @ ?e1 # [] @ []\<rparr>"
    using duplicate_references_dropped[of _ ?rule _ ?e1 "[]" None "[]" ?e2 "[]" "[]"] h by blast
  moreover have "generate_fields \<lparr>label = None, elements = [?e1]\<rparr> = ''    private final Item item;''"
    by code_simp
  moreover have "generate_visit_body ?rule \<lparr>label = None, elements = [?e1]\<rparr>
       = join [CHR 0x0A]
           [''        Item item;'',
            ''        if (ctx.item() == null) {'',
            ''            throw new TransformationException(\"r missing item\");'',
            ''        }'',
            ''        item = (Item) visit(ctx.item());'',
            ''        return new R(item);'']"
    by code_simp
  moreover have "field_elements \<lparr>label = None, elements = [?e1]\<rparr> = [?e1]"
    by code_simp
  ultimately show ?thesis by simp
qed

section \<open>The node schema\<close>

text \<open>
  Claim C4, as stated, fails. In \<open>r : item item* ;\<close> the two rule references differ in
  cardinality, and in \<open>r : a a_* ;\<close> they differ in name, but both names of a pair give the
  same field name: the schema has the one field of the first reference, of the bare
  type, and no sequence field for the second reference, whose cardinality is \<open>*\<close>.
\<close>

theorem later_reference_gets_no_field:
  "map (\<lambda>e. (name e, cardinality e, is_rule_ref e))
       (elements (first_alternative (snd (hd (parse ''r : item item* ;'')))))
     = [(''item'', [], True), (''item'', ''*'', True)]
   \<and> generate_fields (first_alternative (snd (hd (parse ''r : item item* ;''))))
     = ''    private final Item item;''
   \<and> map (\<lambda>e. (name e, cardinality e, is_rule_ref e))
       (elements (first_alternative (snd (hd (parse ''r : a a_* ;'')))))
     = [(''a'', [], True), (''a_'', ''*'', True)]
   \<and> generate_fields (first_alternative (snd (hd (parse ''r : a a_* ;''))))
     = ''    private final A a;''"
  by code_simp

lemma parse_alternative_rule_ref:
  "\<forall>e \<in> set (parse_alternative t). is_rule_ref e = (\<not> is_token e)"
  by (auto simp: parse_alternative_def make_element_def)

lemma get_field_type_cardinality:
  "get_field_type e =
     (if cardinality e = ''*'' \<or> cardinality e = ''+''
      then ''List<'' @ rule_to_class_name (name e) @ ''>''
      else rule_to_class_name (name e))"
  by (simp add: get_field_type_def is_list_def Let_def)

text \<open>
  Claim C4, amended. The schema has one field for each distinct field name (the name of
  the rule after normalization) among the rule references of the alternative, declared
  from the first reference with that field name, and no field for an element that is not
  a rule reference; in a parsed alternative the tokens are exactly the elements that are
  not rule references. The type of a field is the class name of the referenced rule,
  wrapped as \<open>List<...>\<close> exactly when the cardinality of that first reference is \<open>*\<close> or
  \<open>+\<close>, and bare otherwise.
\<close>

theorem schema_fields_by_field_name:
  "generate_fields alt =
     (if field_elements alt \<noteq> [] then join [CHR 0x0A] (map field_declaration (field_elements alt))
      else ''    // No child nodes'')
   \<and> field_declaration e = ''    private final '' @ get_field_type e @ '' '' @ to_camel_case (name e) @ '';''
   \<and> set (field_elements alt) \<subseteq> {e \<in> set (elements alt). is_rule_ref e}
   \<and> field_name_of ` set (field_elements alt) = field_name_of ` {e \<in> set (elements alt). is_rule_ref e}
   \<and> distinct (map field_name_of (field_elements alt))
   \<and> get_field_type e =
       (if cardinality e = ''*'' \<or> cardinality e = ''+''
        then ''List<'' @ rule_to_class_name (name e) @ ''>''
        else rule_to_class_name (name e))
   \<and> (\<forall>e \<in> set (parse_alternative t). is_rule_ref e = (\<not> is_token e))"
proof -
  have s: "set (field_elements alt) \<subseteq> {e \<in> set (elements alt). is_rule_ref e}"
    using keep_first_subset[of field_name_of "filter is_rule_ref (elements alt)"]
    by (simp add: field_elements_def)
  have i: "field_name_of ` set (field_elements alt)
           = field_name_of ` {e \<in> set (elements alt). is_rule_ref e}"
    using keep_first_image[of field_name_of "filter is_rule_ref (elements alt)"]
    by (simp add: field_elements_def)
  have d: "distinct (map field_name_of (field_elements alt))"
    by (simp add: field_elements_def keep_first_distinct)
  have f: "field_declaration e = ''    private final '' @ get_field_type e @ '' '' @ to_camel_case (name e) @ '';''"
    by (simp add: field_declaration_def field_name_of_def)
  show ?thesis
    using s i d f generate_fields_field_elements[of alt] get_field_type_cardinality[of e]
      parse_alternative_rule_ref[of t]
    by blast
qed

theorem schema_fields_by_field_name_witness:
  "generate_fields \<lparr>label = None, elements = parse_alternative ''BAR baz qux?''\<rparr>
     = ''    private final Baz baz;'' @ [CHR 0x0A] @ ''    private final Qux qux;''"
proof -
  let ?alt = "\<lparr>label = None, elements = parse_alternative ''BAR baz qux?''\<rparr>"
  have e: "field_elements ?alt =
      [\<lparr>name = ''baz'', is_token = False, cardinality = [], is_rule_ref = True\<rparr>,
       \<lparr>name = ''qux'', is_token = False, cardinality = ''?'', is_rule_ref = True\<rparr>]"
    by code_simp
  have "generate_fields ?alt =
     (if field_elements ?alt \<noteq> [] then join [CHR 0x0A] (map field_declaration (field_elements ?alt))
      else ''    // No child nodes'')"
    using schema_fields_by_field_name[of ?alt] by blast
  also have "\<dots> = ''    private final Baz baz;'' @ [CHR 0x0A] @ ''    private final Qux qux;''"
    unfolding e by code_simp
  finally show ?thesis .
qed

section \<open>The construction routine\<close>

lemma element_finditer_suffix:
  "(nm, suf) \<in> set (element_finditer s) \<Longrightarrow> suf \<in> {[], ''?'', ''*'', ''+''}"
proof (induction s rule: element_finditer.induct)
  case 1
  then show ?case by simp
next
  case (2 c cs)
  show ?case
  proof (cases "element_match (c # cs)")
    case None
    with 2 show ?thesis by simp
  next
    case (Some m)
    obtain n1 s1 rest where m: "m = (n1, s1, rest)" by (cases m) auto
    from Some m have "s1 \<in> {[], ''?'', ''*'', ''+''}"
      by (auto simp: element_match_def split: option.splits list.splits if_splits)
    with 2 Some m show ?thesis by auto
  qed
qed

lemma parse_alternative_cardinality:
  "\<forall>e \<in> set (parse_alternative t). cardinality e \<in> {[], ''?'', ''*'', ''+''}"
  using element_finditer_suffix
  by (fastforce simp: parse_alternative_def make_element_def)

text \<open>
  Claim C2, as stated, fails. The alternative of \<open>r : item item+ ;\<close> has two rule
  references; the routine has the branch of the first, of cardinality one, and no branch
  at all for the second, of cardinality \<open>+\<close>: no sequence is built.
\<close>

theorem later_reference_gets_no_branch:
  "map (\<lambda>e. (name e, cardinality e, is_rule_ref e))
       (elements (first_alternative (snd (hd (parse ''r : item item+ ;'')))))
     = [(''item'', [], True), (''item'', ''+'', True)]
   \<and> generate_visit_body (snd (hd (parse ''r : item item+ ;'')))
        (first_alternative (snd (hd (parse ''r : item item+ ;''))))
     = join [CHR 0x0A]
         [''        Item item;'',
          ''        if (ctx.item() == null) {'',
          ''            throw new TransformationException(\"r missing item\");'',
          ''        }'',
          ''        item = (Item) visit(ctx.item());'',
          ''        return new R(item);'']"
  by code_simp

text \<open>
  Claim C2, amended. The routine is made of one block of lines for each element kept by
  \<open>field_elements\<close> (the first rule reference of each field name), in order, and the return
  line. The block of an element is chosen by its cardinality: for \<open>*\<close> and \<open>+\<close> an empty list
  is made and, when the child collection is not null, the visited node of each item is
  added in order; for \<open>?\<close> the variable stays null when the child is null and is the visited
  child otherwise; for the empty cardinality an exception naming the rule and the element
  is thrown when the child is null, and the child is visited otherwise. The cardinality
  of a parsed element is one of these four, so exactly one case applies.
\<close>

theorem visit_body_one_branch_per_field:
  "generate_visit_body rule alt =
     join [CHR 0x0A]
       (concat (map (\<lambda>e. fst (visit_element_lines rule e)) (field_elements alt)) @
        [if field_elements alt \<noteq> []
         then ''        return new '' @ java_class_name rule @ ''(''
              @ join '', '' (map (\<lambda>e. snd (visit_element_lines rule e)) (field_elements alt)) @ '');''
         else ''        return new '' @ java_class_name rule @ ''();''])
   \<and> (cardinality e = ''*'' \<or> cardinality e = ''+'' \<longrightarrow>
        visit_element_lines rule e =
          ([''        List<'' @ rule_to_class_name (name e) @ ''> '' @ to_camel_case (name e)
               @ ''List = new ArrayList<>();'',
            ''        if (ctx.'' @ name e @ ''() != null) {'',
            ''            for (PlSqlParser.'' @ rule_to_class_name (name e) @ ''Context item : ctx.''
               @ name e @ ''()) {'',
            ''                '' @ to_camel_case (name e) @ ''List.add((''
               @ rule_to_class_name (name e) @ '') visit(item));'',
            ''            }'',
            ''        }''],
           to_camel_case (name e) @ ''List''))
   \<and> (cardinality e = ''?'' \<longrightarrow>
        visit_element_lines rule e =
          ([''        '' @ rule_to_class_name (name e) @ '' '' @ to_camel_case (name e) @ '' = null;'',
            ''        if (ctx.'' @ name e @ ''() != null) {'',
            ''            '' @ to_camel_case (name e) @ '' = ('' @ rule_to_class_name (name e)
               @ '') visit(ctx.'' @ name e @ ''());'',
            ''        }''],
           to_camel_case (name e)))
   \<and> (cardinality e = [] \<longrightarrow>
        visit_element_lines rule e =
          ([''        '' @ rule_to_class_name (name e) @ '' '' @ to_camel_case (name e) @ '';'',
            ''        if (ctx.'' @ name e @ ''() == null) {'',
            ''            throw new TransformationException(\"'' @ rule_name rule @ '' missing ''
               @ name e @ ''\");'',
            ''        }'',
            ''        '' @ to_camel_case (name e) @ '' = ('' @ rule_to_class_name (name e)
               @ '') visit(ctx.'' @ name e @ ''());''],
           to_camel_case (name e)))
   \<and> (\<forall>x \<in> set (parse_alternative t). cardinality x \<in> {[], ''?'', ''*'', ''+''})
   \<and> set (field_elements alt) \<subseteq> {x \<in> set (elements alt). is_rule_ref x}
   \<and> field_name_of ` set (field_elements alt) = field_name_of ` {x \<in> set (elements alt). is_rule_ref x}"
proof -
  have l: "cardinality e = ''*'' \<or> cardinality e = ''+'' \<longrightarrow>
        visit_element_lines rule e =
          ([''        List<'' @ rule_to_class_name (name e) @ ''> '' @ to_camel_case (name e)
               @ ''List = new ArrayList<>();'',
            ''        if (ctx.'' @ name e @ ''() != null) {'',
            ''            for (PlSqlParser.'' @ rule_to_class_name (name e) @ ''Context item : ctx.''
               @ name e @ ''()) {'',
            ''                '' @ to_camel_case (name e) @ ''List.add((''
               @ rule_to_class_name (name e) @ '') visit(item));'',
            ''            }'',
            ''        }''],
           to_camel_case (name e) @ ''List'')"
    by (auto simp: visit_element_lines_def is_list_def Let_def)
  have opt: "cardinality e = ''?'' \<longrightarrow>
        visit_element_lines rule e =
          ([''        '' @ rule_to_class_name (name e) @ '' '' @ to_camel_case (name e) @ '' = null;'',
            ''        if (ctx.'' @ name e @ ''() != null) {'',
            ''            '' @ to_camel_case (name e) @ '' = ('' @ rule_to_class_name (name e)
               @ '') visit(ctx.'' @ name e @ ''());'',
            ''        }''],
           to_camel_case (name e))"
    by (auto simp: visit_element_lines_def is_list_def is_optional_def Let_def)
  have one: "cardinality e = [] \<longrightarrow>
        visit_element_lines rule e =
          ([''        '' @ rule_to_class_name (name e) @ '' '' @ to_camel_case (name e) @ '';'',
            ''        if (ctx.'' @ name e @ ''() == null) {'',
            ''            throw new TransformationException(\"'' @ rule_name rule @ '' missing ''
               @ name e @ ''\");'',
            ''        }'',
            ''        '' @ to_camel_case (name e) @ '' = ('' @ rule_to_class_name (name e)
               @ '') visit(ctx.'' @ name e @ ''());''],
           to_camel_case (name e))"
    by (auto simp: visit_element_lines_def is_list_def is_optional_def Let_def)
  have s: "set (field_elements alt) \<subseteq> {x \<in> set (elements alt). is_rule_ref x}"
    using keep_first_subset[of field_name_of "filter is_rule_ref (elements alt)"]
    by (simp add: field_elements_def)
  have i: "field_name_of ` set (field_elements alt) = field_name_of ` {x \<in> set (elements alt). is_rule_ref x}"
    using keep_first_image[of field_name_of "filter is_rule_ref (elements alt)"]
    by (simp add: field_elements_def)
  show ?thesis
    using l opt one s i generate_visit_body_field_elements[of rule alt]
      parse_alternative_cardinality[of t]
    by blast
qed

theorem visit_body_one_branch_per_field_witness:
  "generate_visit_body \<lparr>rule_name = ''foo'', alternatives = []\<rparr>
     \<lparr>label = None, elements = parse_alternative ''BAR baz* qux? quux''\<rparr>
   = join [CHR 0x0A]
       [''        List<Baz> bazList = new ArrayList<>();'',
        ''        if (ctx.baz() != null) {'',
        ''            for (PlSqlParser.BazContext item : ctx.baz()) {'',
        ''                bazList.add((Baz) visit(item));'',
        ''            }'',
        ''        }'',
        ''        Qux qux = null;'',
        ''        if (ctx.qux() != null) {'',
        ''            qux = (Qux) visit(ctx.qux());'',
        ''        }'',
        ''        Quux quux;'',
        ''        if (ctx.quux() == null) {'',
        ''            throw new TransformationException(\"foo missing quux\");'',
        ''        }'',
        ''        quux = (Quux) visit(ctx.quux());'',
        ''        return new Foo(bazList, qux, quux);'']
   \<and> map cardinality (parse_alternative ''BAR baz* qux? quux'') = [[], ''*'', ''?'', []]"
proof -
  let ?alt = "\<lparr>label = None, elements = parse_alternative ''BAR baz* qux? quux''\<rparr>"
  let ?rule = "\<lparr>rule_name = ''foo'', alternatives = []\<rparr>"
  let ?baz = "\<lparr>name = ''baz'', is_token = False, cardinality = ''*'', is_rule_ref = True\<rparr>"
  let ?qux = "\<lparr>name = ''qux'', is_token = False, cardinality = ''?'', is_rule_ref = True\<rparr>"
  let ?quux = "\<lparr>name = ''quux'', is_token = False, cardinality = [], is_rule_ref = True\<rparr>"
  have e: "field_elements ?alt = [?baz, ?qux, ?quux]"
    by code_simp
  have n: "rule_to_class_name ''baz'' = ''Baz''" "to_camel_case ''baz'' = ''baz''"
    "rule_to_class_name ''qux'' = ''Qux''" "to_camel_case ''qux'' = ''qux''"
    "rule_to_class_name ''quux'' = ''Quux''" "to_camel_case ''quux'' = ''quux''"
    "java_class_name ?rule = ''Foo''"
    by code_simp+
  have b: "visit_element_lines ?rule ?baz =
     ([''        List<Baz> bazList = new ArrayList<>();'',
       ''        if (ctx.baz() != null) {'',
       ''            for (PlSqlParser.BazContext item : ctx.baz()) {'',
       ''                bazList.add((Baz) visit(item));'',
       ''            }'',
       ''        }''], ''bazList'')"
    using conjunct1[OF conjunct2[OF visit_body_one_branch_per_field[of ?rule ?alt ?baz]]]
    by (simp add: n)
  have q: "visit_element_lines ?rule ?qux =
     ([''        Qux qux = null;'',
       ''        if (ctx.qux() != null) {'',
       ''            qux = (Qux) visit(ctx.qux());'',
       ''        }''], ''qux'')"
    using conjunct1[OF conjunct2[OF conjunct2[OF visit_body_one_branch_per_field[of ?rule ?alt ?qux]]]]
    by (simp add: n)
  have u: "visit_element_lines ?rule ?quux =
     ([''        Quux quux;'',
       ''        if (ctx.quux() == null) {'',
       ''            throw new TransformationException(\"foo missing quux\");'',
       ''        }'',
       ''        quux = (Quux) visit(ctx.quux());''], ''quux'')"
    using conjunct1[OF conjunct2[OF conjunct2[OF conjunct2[OF visit_body_one_branch_per_field[of ?rule ?alt ?quux]]]]]
    by (simp add: n)
  have g: "generate_visit_body ?rule ?alt =
     join [CHR 0x0A]
       (concat (map (\<lambda>e. fst (visit_element_lines ?rule e)) (field_elements ?alt)) @
        [if field_elements ?alt \<noteq> []
         then ''        return new '' @ java_class_name ?rule @ ''(''
              @ join '', '' (map (\<lambda>e. snd (visit_element_lines ?rule e)) (field_elements ?alt)) @ '');''
         else ''        return new '' @ java_class_name ?rule @ ''();''])"
    using visit_body_one_branch_per_field[of ?rule ?alt] by blast
  have j: "join '', '' [''bazList'', ''qux'', ''quux''] = ''bazList, qux, quux''"
    by code_simp
  have c: "map cardinality (parse_alternative ''BAR baz* qux? quux'') = [[], ''*'', ''?'', []]"
    by code_simp
  show ?thesis
    unfolding g e by (simp add: b q u n j c)
qed

section \<open>The scenario of a list rule\<close>

text \<open>
  Claim C6, as stated, fails. For \<open>list_rule : item+ ;\<close> the schema has one field, and its
  name is \<open>item\<close>, the name of the referenced rule in camel case: no field is named
  \<open>items\<close>.
\<close>

theorem list_rule_field_is_not_items:
  "map field_name_of
       (field_elements (first_alternative (snd (hd (parse ''list_rule : item+ ;'')))))
     = [''item'']
   \<and> ''items'' \<notin> set (map field_name_of
       (field_elements (first_alternative (snd (hd (parse ''list_rule : item+ ;''))))))
   \<and> generate_fields (first_alternative (snd (hd (parse ''list_rule : item+ ;''))))
     = ''    private final List<Item> item;''"
  by code_simp

text \<open>
  Claim C6, amended. The grammar \<open>list_rule : item+ ;\<close> gives one rule with one alternative
  of one rule reference of cardinality \<open>+\<close>. Its schema has the one field \<open>item\<close> of type
  \<open>List<Item>\<close>. The routine makes an empty list, adds the visited node of each item of
  \<open>ctx.item()\<close> in order when that collection is not null, so that the list stays empty
  without children, and passes the list to the constructor.
\<close>

theorem list_rule_scenario:
  "parse ''list_rule : item+ ;''
     = [(''list_rule'',
         \<lparr>rule_name = ''list_rule'',
          alternatives =
            [\<lparr>label = None,
              elements = [\<lparr>name = ''item'', is_token = False, cardinality = ''+'',
                           is_rule_ref = True\<rparr>]\<rparr>]\<rparr>)]
   \<and> map (\<lambda>e. (field_name_of e, get_field_type e))
       (field_elements (first_alternative (snd (hd (parse ''list_rule : item+ ;'')))))
     = [(''item'', ''List<Item>'')]
   \<and> generate_visit_body (snd (hd (parse ''list_rule : item+ ;'')))
        (first_alternative (snd (hd (parse ''list_rule : item+ ;''))))
     = join [CHR 0x0A]
         [''        List<Item> itemList = new ArrayList<>();'',
          ''        if (ctx.item() != null) {'',
          ''            for (PlSqlParser.ItemContext item : ctx.item()) {'',
          ''                itemList.add((Item) visit(item));'',
          ''            }'',
          ''        }'',
          ''        return new ListRule(itemList);'']"
  by code_simp

section \<open>Rules are processed in sorted order\<close>







end
